theory Spec2Isabelle
  imports Main "HOL-Library.AList" "HOL-Library.Multiset"
begin

section \<open>Python values used by \<open>main.py\<close>\<close>

text \<open>
  The exceptions that the modelled functions can raise. A function that can raise returns
  \<open>py_error + 'a\<close>, with \<open>Inl\<close> for the exception.
\<close>

datatype py_error = KeyError | ValueError | IndexError

text \<open>
  Strings are lists of characters; a character stands for the code point of the same number
  (0 to 255). \<open>str_split sep s\<close> is \<open>s.split(sep)\<close> for a separator of one character: the
  pieces between the occurrences of \<open>sep\<close>, so one piece more than there are occurrences.
\<close>

fun str_split :: "char \<Rightarrow> string \<Rightarrow> string list" where
  "str_split sep [] = [[]]"
| "str_split sep (c # cs) =
     (if c = sep then [] # str_split sep cs
      else (case str_split sep cs of
              [] \<Rightarrow> [[c]]
            | p # ps \<Rightarrow> (c # p) # ps))"

text \<open>
  \<open>int(s)\<close> on a string, base ten: white space is stripped at both ends, one sign may
  follow, then decimal digits, where single underscores may stand between two digits.
  Anything else raises \<open>ValueError\<close>, as does a literal of more than 4300 digits (the default
  of \<open>sys.int_max_str_digits\<close>).
\<close>

definition py_isspace :: "char \<Rightarrow> bool" where
  "py_isspace c = (of_char c \<in> {9, 10, 11, 12, 13, 32, 133, 160 :: nat})"

definition is_digit :: "char \<Rightarrow> bool" where
  "is_digit c = (48 \<le> (of_char c :: nat) \<and> (of_char c :: nat) \<le> 57)"

definition digit_val :: "char \<Rightarrow> int" where
  "digit_val c = int (of_char c) - 48"

definition str_strip :: "string \<Rightarrow> string" where
  "str_strip s = rev (dropWhile py_isspace (rev (dropWhile py_isspace s)))"

fun digits_value :: "int \<Rightarrow> string \<Rightarrow> int option" where
  "digits_value acc [] = Some acc"
| "digits_value acc [c] =
     (if is_digit c then Some (10 * acc + digit_val c) else None)"
| "digits_value acc (c # d # cs) =
     (if is_digit c then digits_value (10 * acc + digit_val c) (d # cs)
      else if c = CHR ''_'' \<and> is_digit d then digits_value (10 * acc + digit_val d) cs
      else None)"

definition decimal_value :: "string \<Rightarrow> int option" where
  "decimal_value s =
     (case s of
        [] \<Rightarrow> None
      | c # cs \<Rightarrow> if is_digit c then digits_value (digit_val c) cs else None)"

definition py_int :: "string \<Rightarrow> py_error + int" where
  "py_int s =
     (let t = str_strip s;
          neg = (case t of [] \<Rightarrow> False | c # _ \<Rightarrow> c = CHR ''-'');
          body = (case t of [] \<Rightarrow> []
                  | c # cs \<Rightarrow> if c = CHR ''-'' \<or> c = CHR ''+'' then cs else t)
      in case decimal_value body of
           None \<Rightarrow> Inl ValueError
         | Some n \<Rightarrow>
             if length (filter is_digit body) > 4300 then Inl ValueError
             else Inr (if neg then - n else n))"

section \<open>Configuration\<close>

definition TAGE :: "string list" where
  "TAGE = [''Montag'', ''Dienstag'', ''Mittwoch'', ''Donnerstag'', ''Freitag'']"

text \<open>
  \<open>datetime.strptime(s, "%H:%M")\<close>. The format becomes the regular expression
  \<open>(2[0-3]|[0-1]\d|\d):([0-5]\d|\d)\<close>, matched at the start of \<open>s\<close>; text left over
  after the match raises \<open>ValueError\<close>. The date is always 1900-01-01, so the result is kept
  as the minutes since that midnight.
\<close>

definition match_hour :: "string \<Rightarrow> (nat \<times> string) option" where
  "match_hour s =
     (case s of
        c # d # e # rest \<Rightarrow>
          if ((c = CHR ''2'' \<and> d \<in> set ''0123'') \<or> (c \<in> set ''01'' \<and> is_digit d))
             \<and> e = CHR '':''
          then Some (nat (10 * digit_val c + digit_val d), rest)
          else if is_digit c \<and> d = CHR '':'' then Some (nat (digit_val c), e # rest)
          else None
      | [c, d] \<Rightarrow>
          if is_digit c \<and> d = CHR '':'' then Some (nat (digit_val c), []) else None
      | _ \<Rightarrow> None)"

definition match_minute :: "string \<Rightarrow> (nat \<times> string) option" where
  "match_minute s =
     (case s of
        [] \<Rightarrow> None
      | [c] \<Rightarrow> if is_digit c then Some (nat (digit_val c), []) else None
      | c # d # rest \<Rightarrow>
          if c \<in> set ''012345'' \<and> is_digit d
          then Some (nat (10 * digit_val c + digit_val d), rest)
          else if is_digit c then Some (nat (digit_val c), d # rest)
          else None)"

definition strptime :: "string \<Rightarrow> py_error + nat" where
  "strptime s =
     (case match_hour s of
        None \<Rightarrow> Inl ValueError
      | Some (h, rest) \<Rightarrow>
          (case match_minute rest of
             None \<Rightarrow> Inl ValueError
           | Some (m, left) \<Rightarrow> if left = [] then Inr (h * 60 + m) else Inl ValueError))"

text \<open>\<open>dt.strftime("%H:%M")\<close>, for \<open>dt\<close> given in minutes since midnight of the first day.\<close>

definition digit_char :: "nat \<Rightarrow> char" where
  "digit_char d = ''0123456789'' ! d"

definition two_digits :: "nat \<Rightarrow> string" where
  "two_digits n = [digit_char (n div 10 mod 10), digit_char (n mod 10)]"

definition strftime :: "nat \<Rightarrow> string" where
  "strftime t = two_digits (t div 60 mod 24) @ '':'' @ two_digits (t mod 60)"

text \<open>
  The loop of \<open>generate_halfhour_slots\<close>, with \<open>current\<close> and \<open>end_dt\<close> in minutes and the
  list \<open>slots\<close> built so far.
\<close>

function halfhour_loop :: "nat \<Rightarrow> nat \<Rightarrow> string list \<Rightarrow> string list" where
  "halfhour_loop current end_dt slots =
     (if current < end_dt then
        (let slot_start = current;
             slot_end = current + 30
         in if slot_end > end_dt then slots
            else halfhour_loop slot_end end_dt
                   (slots @ [strftime slot_start @ ''-'' @ strftime slot_end]))
      else slots)"
  by pat_completeness auto
termination
  by (relation "measure (\<lambda>(current, end_dt, slots). end_dt - current)") auto

declare halfhour_loop.simps [simp del]

definition generate_halfhour_slots :: "string \<Rightarrow> string \<Rightarrow> py_error + string list" where
  "generate_halfhour_slots start_str end_str =
     (case strptime start_str of
        Inl e \<Rightarrow> Inl e
      | Inr start_dt \<Rightarrow>
          (case strptime end_str of
             Inl e \<Rightarrow> Inl e
           | Inr end_dt \<Rightarrow> Inr (halfhour_loop start_dt end_dt [])))"

definition HALF_HOUR_SLOTS :: "py_error + string list" where
  "HALF_HOUR_SLOTS = generate_halfhour_slots ''12:00'' ''21:30''"

section \<open>Slot labels\<close>

definition slot_to_minutes :: "string \<Rightarrow> py_error + int" where
  "slot_to_minutes slot_label =
     (case str_split CHR ''-'' slot_label of
        [] \<Rightarrow> Inl IndexError
      | start_str # _ \<Rightarrow>
          (case str_split CHR '':'' start_str of
             [hh, mm] \<Rightarrow>
               (case py_int hh of
                  Inl e \<Rightarrow> Inl e
                | Inr h \<Rightarrow>
                    (case py_int mm of
                       Inl e \<Rightarrow> Inl e
                     | Inr m \<Rightarrow> Inr (h * 60 + m)))
           | _ \<Rightarrow> Inl ValueError))"

section \<open>Sets of labels\<close>

text \<open>
  A Python set of labels is kept as the list of its elements, without repetition, in the
  order in which they were inserted. \<open>py_set xs\<close> is \<open>set(xs)\<close>;
  \<open>set_intersection so other\<close> is \<open>so.intersection(other)\<close> for a list \<open>other\<close>, which
  inserts the elements of \<open>other\<close> that are in \<open>so\<close>.

  The order in which \<open>list(s)\<close> enumerates a set is not fixed by the language: it depends on
  the hashes of the elements and on the insertions made. It is a parameter of the model,
  \<open>order\<close>, of which only \<open>set_order_ok\<close> is known: the enumeration has the elements of
  the set, each once.
\<close>

type_synonym set_order = "string list \<Rightarrow> string list"

definition set_order_ok :: "set_order \<Rightarrow> bool" where
  "set_order_ok order = (\<forall>xs. distinct xs \<longrightarrow> mset (order xs) = mset xs)"

fun py_set :: "string list \<Rightarrow> string list" where
  "py_set [] = []"
| "py_set (x # xs) = x # filter (\<lambda>y. y \<noteq> x) (py_set xs)"

definition set_intersection :: "string list \<Rightarrow> string list \<Rightarrow> string list" where
  "set_intersection so other = py_set (filter (\<lambda>k. k \<in> set so) other)"

text \<open>
  \<open>sorted(xs, key=slot_to_minutes)\<close>: the key of every element is computed first, in the
  order of the list, and the first key that raises ends the call; the sort is stable.
\<close>

fun minute_keys :: "string list \<Rightarrow> py_error + int list" where
  "minute_keys [] = Inr []"
| "minute_keys (x # xs) =
     (case slot_to_minutes x of
        Inl e \<Rightarrow> Inl e
      | Inr k \<Rightarrow>
          (case minute_keys xs of
             Inl e \<Rightarrow> Inl e
           | Inr ks \<Rightarrow> Inr (k # ks)))"

definition sorted_by_minutes :: "string list \<Rightarrow> py_error + string list" where
  "sorted_by_minutes xs =
     (case minute_keys xs of
        Inl e \<Rightarrow> Inl e
      | Inr ks \<Rightarrow> Inr (map snd (sort_key fst (zip ks xs))))"

section \<open>Hour blocks\<close>

text \<open>
  The loop of \<open>find_hour_blocks\<close>, with the index \<open>i\<close> and the list \<open>result\<close> built so far.
  In the test of the loop the comparison is on integers, since \<open>len(halfhour_list) - 1\<close> is
  \<open>-1\<close> for the empty list.
\<close>

function hour_blocks_loop :: "string list \<Rightarrow> nat \<Rightarrow> string list \<Rightarrow> py_error + string list" where
  "hour_blocks_loop halfhour_list i result =
     (if int i < int (length halfhour_list) - 1 then
        (let slot_a = halfhour_list ! i;
             slot_b = halfhour_list ! (i + 1)
         in case slot_to_minutes slot_b of
              Inl e \<Rightarrow> Inl e
            | Inr mb \<Rightarrow>
                (case slot_to_minutes slot_a of
                   Inl e \<Rightarrow> Inl e
                 | Inr ma \<Rightarrow>
                     if mb = ma + 30 then
                       (case str_split CHR ''-'' slot_a of
                          [] \<Rightarrow> Inl IndexError
                        | start_str # _ \<Rightarrow>
                            (case str_split CHR ''-'' slot_b of
                               _ # end_str # _ \<Rightarrow>
                                 hour_blocks_loop halfhour_list (i + 2)
                                   (result @ [start_str @ ''-'' @ end_str])
                             | _ \<Rightarrow> Inl IndexError))
                     else hour_blocks_loop halfhour_list (i + 1) result))
      else Inr result)"
  by pat_completeness auto
termination
  by (relation "measure (\<lambda>(halfhour_list, i, result). length halfhour_list - i)") auto

declare hour_blocks_loop.simps [simp del]

definition find_hour_blocks :: "string list \<Rightarrow> py_error + string list" where
  "find_hour_blocks halfhour_list = hour_blocks_loop halfhour_list 0 []"

section \<open>Common slots\<close>

text \<open>
  \<open>selected_data\<close> is a dictionary from persons to dictionaries from days to lists of labels.
  The persons are kept in the order of the dictionary, which \<open>persons[0]\<close> and the loop over
  \<open>persons[1:]\<close> follow, so the outer dictionary is an association list (its keys distinct);
  the inner one is a map. The result is a dictionary from days to lists, again in the
  order of insertion; \<open>{}\<close> is the empty list.
\<close>

type_synonym day_slots = "string \<rightharpoonup> string list"
type_synonym selection = "(string \<times> day_slots) list"
type_synonym common_slots = "(string \<times> string list) list"

text \<open>\<open>selected_data[p][tag]\<close>\<close>

definition day_lookup :: "selection \<Rightarrow> string \<Rightarrow> string \<Rightarrow> py_error + string list" where
  "day_lookup selected_data p tag =
     (case map_of selected_data p of
        None \<Rightarrow> Inl KeyError
      | Some days \<Rightarrow>
          (case days tag of
             None \<Rightarrow> Inl KeyError
           | Some slots \<Rightarrow> Inr slots))"

text \<open>The loop over \<open>persons[1:]\<close> for one day.\<close>

fun intersect_loop :: "selection \<Rightarrow> string \<Rightarrow> string list \<Rightarrow> string list \<Rightarrow> py_error + string list" where
  "intersect_loop selected_data tag [] set_slots = Inr set_slots"
| "intersect_loop selected_data tag (p # ps) set_slots =
     (case day_lookup selected_data p tag of
        Inl e \<Rightarrow> Inl e
      | Inr slots \<Rightarrow> intersect_loop selected_data tag ps (set_intersection set_slots slots))"

text \<open>The body of the loop over \<open>TAGE\<close>: the value stored under \<open>tag\<close>.\<close>

definition day_common :: "set_order \<Rightarrow> selection \<Rightarrow> int \<Rightarrow> string list \<Rightarrow> string \<Rightarrow> py_error + string list" where
  "day_common order selected_data meeting_length persons tag =
     (case persons of
        [] \<Rightarrow> Inl IndexError
      | p0 # rest \<Rightarrow>
          (case day_lookup selected_data p0 tag of
             Inl e \<Rightarrow> Inl e
           | Inr slots0 \<Rightarrow>
               (case intersect_loop selected_data tag rest (py_set slots0) of
                  Inl e \<Rightarrow> Inl e
                | Inr set_slots \<Rightarrow>
                    (case sorted_by_minutes (order set_slots) of
                       Inl e \<Rightarrow> Inl e
                     | Inr halfhour_list \<Rightarrow>
                         if meeting_length = 30 then Inr halfhour_list
                         else find_hour_blocks halfhour_list))))"

fun tage_loop :: "set_order \<Rightarrow> selection \<Rightarrow> int \<Rightarrow> string list \<Rightarrow> string list \<Rightarrow> common_slots \<Rightarrow> py_error + common_slots" where
  "tage_loop order selected_data meeting_length persons [] common_per_day = Inr common_per_day"
| "tage_loop order selected_data meeting_length persons (tag # tags) common_per_day =
     (case day_common order selected_data meeting_length persons tag of
        Inl e \<Rightarrow> Inl e
      | Inr blocks \<Rightarrow>
          tage_loop order selected_data meeting_length persons tags
            (AList.update tag blocks common_per_day))"

definition find_common_slots :: "set_order \<Rightarrow> selection \<Rightarrow> int \<Rightarrow> py_error + common_slots" where
  "find_common_slots order selected_data meeting_length =
     (let persons = map fst selected_data
      in if length persons < 2 then Inr []
         else tage_loop order selected_data meeting_length persons TAGE [])"

text \<open>\<open>common.get(t, [])\<close>, the way \<open>main\<close> reads the result.\<close>

definition common_get :: "common_slots \<Rightarrow> string \<Rightarrow> string list" where
  "common_get common t = (case map_of common t of None \<Rightarrow> [] | Some slots \<Rightarrow> slots)"

section \<open>Notions of the specification\<close>

text \<open>
  The specification speaks of the end time of a slot, of slots of half an hour, of two slots
  being adjacent (the second starts when the first ends) and of the block that spans from
  the start of one slot to the end of another. The source has no function for these; they
  are defined here on labels, the clock times read the way \<open>slot_to_minutes\<close> reads the
  start.
\<close>

definition clock_to_minutes :: "string \<Rightarrow> py_error + int" where
  "clock_to_minutes s =
     (case str_split CHR '':'' s of
        [hh, mm] \<Rightarrow>
          (case py_int hh of
             Inl e \<Rightarrow> Inl e
           | Inr h \<Rightarrow>
               (case py_int mm of
                  Inl e \<Rightarrow> Inl e
                | Inr m \<Rightarrow> Inr (h * 60 + m)))
      | _ \<Rightarrow> Inl ValueError)"

definition slot_end_to_minutes :: "string \<Rightarrow> py_error + int" where
  "slot_end_to_minutes slot_label =
     (case str_split CHR ''-'' slot_label of
        _ # end_str # _ \<Rightarrow> clock_to_minutes end_str
      | _ \<Rightarrow> Inl IndexError)"

definition half_hour_slot :: "string \<Rightarrow> bool" where
  "half_hour_slot l =
     (case slot_to_minutes l of
        Inl _ \<Rightarrow> False
      | Inr s \<Rightarrow> slot_end_to_minutes l = Inr (s + 30))"

definition adjacent :: "string \<Rightarrow> string \<Rightarrow> bool" where
  "adjacent a b =
     (case slot_end_to_minutes a of
        Inl _ \<Rightarrow> False
      | Inr e \<Rightarrow> slot_to_minutes b = Inr e)"

definition hour_label :: "string \<Rightarrow> string \<Rightarrow> string" where
  "hour_label a b = hd (str_split CHR ''-'' a) @ ''-'' @ (str_split CHR ''-'' b ! 1)"

text \<open>A label parses when \<open>slot_to_minutes\<close> returns on it.\<close>

definition parses :: "string \<Rightarrow> bool" where
  "parses l = (case slot_to_minutes l of Inl _ \<Rightarrow> False | Inr _ \<Rightarrow> True)"

definition start_minutes :: "string \<Rightarrow> int" where
  "start_minutes l = (case slot_to_minutes l of Inl _ \<Rightarrow> 0 | Inr m \<Rightarrow> m)"

text \<open>Texts of the form HH:MM, two digits on each side of the colon, and their minutes.\<close>

definition is_hhmm :: "string \<Rightarrow> bool" where
  "is_hhmm s =
     (case s of
        [a, b, c, d, e] \<Rightarrow> is_digit a \<and> is_digit b \<and> c = CHR '':'' \<and> is_digit d \<and> is_digit e
      | _ \<Rightarrow> False)"

definition hhmm_minutes :: "string \<Rightarrow> int" where
  "hhmm_minutes s =
     (case s of
        [a, b, c, d, e] \<Rightarrow> (10 * digit_val a + digit_val b) * 60 + (10 * digit_val d + digit_val e)
      | _ \<Rightarrow> 0)"

section \<open>Reading the selection\<close>

text \<open>
  Whether \<open>selected_data[p][tag]\<close> returns, the list it returns, and the set that the loop
  over the persons leaves for one day when every look-up returns: the set of the first
  person, intersected with the lists of the others from left to right.
\<close>

definition has_day :: "selection \<Rightarrow> string \<Rightarrow> string \<Rightarrow> bool" where
  "has_day selected_data p tag =
     (case day_lookup selected_data p tag of Inl _ \<Rightarrow> False | Inr _ \<Rightarrow> True)"

definition slots_of :: "selection \<Rightarrow> string \<Rightarrow> string \<Rightarrow> string list" where
  "slots_of selected_data p tag =
     (case day_lookup selected_data p tag of Inl _ \<Rightarrow> [] | Inr slots \<Rightarrow> slots)"

definition common_set :: "selection \<Rightarrow> string list \<Rightarrow> string \<Rightarrow> string list" where
  "common_set selected_data persons tag =
     foldl set_intersection (py_set (slots_of selected_data (hd persons) tag))
       (map (\<lambda>p. slots_of selected_data p tag) (tl persons))"

text \<open>
  Within a list of labels, \<open>starts_unique\<close>: two labels that parse to the same start minute
  are the same label. \<open>week mon tue\<close> is a dictionary of one person with the given lists for
  Monday and Tuesday and empty lists for the other days.
\<close>

definition starts_unique :: "string list \<Rightarrow> bool" where
  "starts_unique slots =
     (\<forall>l\<in>set slots. \<forall>l'\<in>set slots.
        parses l \<and> parses l' \<and> start_minutes l = start_minutes l' \<longrightarrow> l = l')"

abbreviation week :: "string list \<Rightarrow> string list \<Rightarrow> day_slots" where
  "week mon tue \<equiv>
     map_of [(''Montag'', mon), (''Dienstag'', tue), (''Mittwoch'', []),
             (''Donnerstag'', []), (''Freitag'', [])]"

section \<open>The loop of the hour blocks as a recursion on the list\<close>

fun hour_blocks_rec :: "string list \<Rightarrow> py_error + string list" where
  "hour_blocks_rec (a # b # rest) =
     (case slot_to_minutes b of
        Inl e \<Rightarrow> Inl e
      | Inr mb \<Rightarrow>
          (case slot_to_minutes a of
             Inl e \<Rightarrow> Inl e
           | Inr ma \<Rightarrow>
               if mb = ma + 30 then
                 (case str_split CHR ''-'' a of
                    [] \<Rightarrow> Inl IndexError
                  | start_str # _ \<Rightarrow>
                      (case str_split CHR ''-'' b of
                         _ # end_str # _ \<Rightarrow>
                           (case hour_blocks_rec rest of
                              Inl e \<Rightarrow> Inl e
                            | Inr blocks \<Rightarrow> Inr ((start_str @ ''-'' @ end_str) # blocks))
                       | _ \<Rightarrow> Inl IndexError))
               else hour_blocks_rec (b # rest)))"
| "hour_blocks_rec [a] = Inr []"
| "hour_blocks_rec [] = Inr []"

definition prepend :: "string list \<Rightarrow> py_error + string list \<Rightarrow> py_error + string list" where
  "prepend acc r = (case r of Inl e \<Rightarrow> Inl e | Inr blocks \<Rightarrow> Inr (acc @ blocks))"

section \<open>Strings\<close>

lemma str_split_not_Nil [simp]: "str_split c s \<noteq> []"
  by (induction s) (auto split: list.splits)

lemma str_split_prefix: "c \<notin> set x \<Longrightarrow> str_split c (x @ c # y) = x # str_split c y"
  by (induction x) (auto split: list.splits)

lemma str_split_no_sep: "c \<notin> set x \<Longrightarrow> str_split c x = [x]"
  by (induction x) (auto split: list.splits)

lemma str_split_pieces: "p \<in> set (str_split c s) \<Longrightarrow> c \<notin> set p"
  by (induction s arbitrary: p) (auto split: list.splits if_splits)

lemma is_digit_not_space: "is_digit a \<Longrightarrow> \<not> py_isspace a"
  by (auto simp: is_digit_def py_isspace_def)

lemma is_digit_not_sign:
  "is_digit a \<Longrightarrow> a \<noteq> CHR ''-'' \<and> a \<noteq> CHR ''+'' \<and> a \<noteq> CHR '':''"
  by (auto simp: is_digit_def)

lemma py_int_two_digits:
  "is_digit a \<Longrightarrow> is_digit b \<Longrightarrow> py_int [a, b] = Inr (10 * digit_val a + digit_val b)"
  by (simp add: py_int_def str_strip_def is_digit_not_space is_digit_not_sign
      decimal_value_def Let_def)

section \<open>The hour blocks, by recursion\<close>

lemma hour_blocks_loop_rec:
  "hour_blocks_loop xs i acc = prepend acc (hour_blocks_rec (drop i xs))"
proof (induction xs i acc rule: hour_blocks_loop.induct)
  case (1 xs i acc)
  show ?case
  proof (cases "i + 1 < length xs")
    case False
    then have "drop i xs = [] \<or> (\<exists>a. drop i xs = [a])"
      by (cases "drop i xs"; cases "tl (drop i xs)")
         (auto simp: drop_Suc tl_drop dest: arg_cong [where f = length])
    moreover have "hour_blocks_loop xs i acc = Inr acc"
      using False by (subst hour_blocks_loop.simps) auto
    ultimately show ?thesis by (auto simp: prepend_def)
  next
    case True
    then have d: "drop i xs = xs ! i # xs ! (i + 1) # drop (i + 2) xs"
      by (simp add: Cons_nth_drop_Suc)
    from True have d1: "drop (i + 1) xs = xs ! (i + 1) # drop (i + 2) xs"
      by (simp add: Cons_nth_drop_Suc)
    have r: "hour_blocks_rec (drop i xs) =
      (case slot_to_minutes (xs ! (i + 1)) of
        Inl e \<Rightarrow> Inl e
      | Inr mb \<Rightarrow>
          (case slot_to_minutes (xs ! i) of
             Inl e \<Rightarrow> Inl e
           | Inr ma \<Rightarrow>
               if mb = ma + 30 then
                 (case str_split CHR ''-'' (xs ! i) of
                    [] \<Rightarrow> Inl IndexError
                  | start_str # _ \<Rightarrow>
                      (case str_split CHR ''-'' (xs ! (i + 1)) of
                         _ # end_str # _ \<Rightarrow>
                           (case hour_blocks_rec (drop (i + 2) xs) of
                              Inl e \<Rightarrow> Inl e
                            | Inr blocks \<Rightarrow> Inr ((start_str @ ''-'' @ end_str) # blocks))
                       | _ \<Rightarrow> Inl IndexError))
               else hour_blocks_rec (drop (i + 1) xs)))"
      by (subst d, subst hour_blocks_rec.simps, subst d1 [symmetric], rule refl)
    show ?thesis
      using True "1.IH"
      by (subst hour_blocks_loop.simps, subst r)
         (auto simp: prepend_def Let_def split: sum.splits list.splits)
  qed
qed

lemma find_hour_blocks_rec: "find_hour_blocks xs = hour_blocks_rec xs"
  by (simp add: find_hour_blocks_def hour_blocks_loop_rec prepend_def split: sum.splits)

section \<open>The slot grid\<close>

lemma halfhour_loop_eq:
  "halfhour_loop s e slots =
     slots @ map (\<lambda>k. strftime (s + 30 * k) @ ''-'' @ strftime (s + 30 * k + 30))
               [0..<(e - s) div 30]"
proof (induction s e slots rule: halfhour_loop.induct)
  case (1 current end_dt slots)
  show ?case
  proof (cases "current < end_dt \<and> current + 30 \<le> end_dt")
    case True
    have n: "(end_dt - current) div 30 = Suc ((end_dt - (current + 30)) div 30)"
    proof -
      from True have "30 \<le> end_dt - current" by linarith
      then have "(end_dt - current) div 30 = Suc ((end_dt - current - 30) div 30)"
        by (simp add: le_div_geq)
      then show ?thesis by simp
    qed
    have "halfhour_loop current end_dt slots =
            halfhour_loop (current + 30) end_dt
              (slots @ [strftime current @ ''-'' @ strftime (current + 30)])"
      using True by (subst halfhour_loop.simps) (simp add: Let_def)
    also have "\<dots> = (slots @ [strftime current @ ''-'' @ strftime (current + 30)]) @
        map (\<lambda>k. strftime (current + 30 + 30 * k) @ ''-'' @ strftime (current + 30 + 30 * k + 30))
          [0..<(end_dt - (current + 30)) div 30]"
      using True "1.IH" by simp
    finally show ?thesis
      unfolding n map_upt_Suc by (simp add: add.assoc add.left_commute)
  next
    case False
    then have "(end_dt - current) div 30 = 0" by auto
    moreover have "halfhour_loop current end_dt slots = slots"
      using False by (subst halfhour_loop.simps) (auto simp: Let_def)
    ultimately show ?thesis by simp
  qed
qed

lemma upt_0_3: "[0..<3] = [0, 1, 2 :: nat]"
  by (simp add: upt_conv_Cons)

lemma grid_12_00_21_30:
  "generate_halfhour_slots ''12:00'' ''21:30'' =
     Inr [''12:00-12:30'', ''12:30-13:00'', ''13:00-13:30'', ''13:30-14:00'',
          ''14:00-14:30'', ''14:30-15:00'', ''15:00-15:30'', ''15:30-16:00'',
          ''16:00-16:30'', ''16:30-17:00'', ''17:00-17:30'', ''17:30-18:00'',
          ''18:00-18:30'', ''18:30-19:00'', ''19:00-19:30'', ''19:30-20:00'',
          ''20:00-20:30'', ''20:30-21:00'', ''21:00-21:30'']"
  by (simp add: generate_halfhour_slots_def strptime_def match_hour_def match_minute_def
      is_digit_def digit_val_def halfhour_loop.simps strftime_def two_digits_def digit_char_def)

text \<open>
  C5. When both times parse and the start \<open>s\<close> is before the end \<open>e\<close> (in minutes), the
  generator returns the labels of the consecutive half hours that begin at \<open>s\<close>: label \<open>k\<close>
  runs from \<open>s + 30 k\<close> to \<open>s + 30 k + 30\<close>, and there are \<open>(e - s) div 30\<close> of them, so a
  last unit that would pass \<open>e\<close> is left out. For 12:00 and 21:30 the result is the list of
  19 labels from 12:00-12:30 to 21:00-21:30.
\<close>

theorem generate_halfhour_slots_grid:
  "(strptime start_str = Inr s \<and> strptime end_str = Inr e \<and> s < e \<longrightarrow>
      generate_halfhour_slots start_str end_str =
        Inr (map (\<lambda>k. strftime (s + 30 * k) @ ''-'' @ strftime (s + 30 * k + 30))
               [0..<(e - s) div 30]))
   \<and> generate_halfhour_slots ''12:00'' ''21:30'' =
       Inr [''12:00-12:30'', ''12:30-13:00'', ''13:00-13:30'', ''13:30-14:00'',
            ''14:00-14:30'', ''14:30-15:00'', ''15:00-15:30'', ''15:30-16:00'',
            ''16:00-16:30'', ''16:30-17:00'', ''17:00-17:30'', ''17:30-18:00'',
            ''18:00-18:30'', ''18:30-19:00'', ''19:00-19:30'', ''19:30-20:00'',
            ''20:00-20:30'', ''20:30-21:00'', ''21:00-21:30'']
   \<and> (\<exists>slots. generate_halfhour_slots ''12:00'' ''21:30'' = Inr slots \<and> length slots = 19
         \<and> hd slots = ''12:00-12:30'' \<and> last slots = ''21:00-21:30'')"
proof -
  have general: "strptime start_str = Inr s \<and> strptime end_str = Inr e \<and> s < e \<longrightarrow>
      generate_halfhour_slots start_str end_str =
        Inr (map (\<lambda>k. strftime (s + 30 * k) @ ''-'' @ strftime (s + 30 * k + 30))
               [0..<(e - s) div 30])"
    by (simp add: generate_halfhour_slots_def halfhour_loop_eq)
  show ?thesis
    using general by (simp add: grid_12_00_21_30)
qed

theorem generate_halfhour_slots_grid_witness:
  "strptime ''12:10'' = Inr 730 \<and> strptime ''13:45'' = Inr 825 \<and> (730 :: nat) < 825
   \<and> generate_halfhour_slots ''12:10'' ''13:45'' =
       Inr [''12:10-12:40'', ''12:40-13:10'', ''13:10-13:40'']"
proof -
  have a: "strptime ''12:10'' = Inr 730"
    by (simp add: strptime_def match_hour_def match_minute_def is_digit_def digit_val_def)
  have b: "strptime ''13:45'' = Inr 825"
    by (simp add: strptime_def match_hour_def match_minute_def is_digit_def digit_val_def)
  have c: "map (\<lambda>k. strftime (730 + 30 * k) @ ''-'' @ strftime (730 + 30 * k + 30))
             [0..<(825 - 730) div 30] = [''12:10-12:40'', ''12:40-13:10'', ''13:10-13:40'']"
    by (simp add: upt_0_3 strftime_def two_digits_def digit_char_def)
  have "generate_halfhour_slots ''12:10'' ''13:45'' =
          Inr (map (\<lambda>k. strftime (730 + 30 * k) @ ''-'' @ strftime (730 + 30 * k + 30))
                 [0..<(825 - 730) div 30])"
    using generate_halfhour_slots_grid [of "''12:10''" 730 "''13:45''" 825] a b by simp
  then show ?thesis using a b c by simp
qed

section \<open>Labels and hour blocks\<close>

lemma slot_to_minutes_clock:
  "slot_to_minutes l = clock_to_minutes (hd (str_split CHR ''-'' l))"
  by (cases "str_split CHR ''-'' l") (simp_all add: slot_to_minutes_def clock_to_minutes_def)

lemma is_hhmm_no_dash: "is_hhmm s \<Longrightarrow> CHR ''-'' \<notin> set s"
  by (auto simp: is_hhmm_def is_digit_def split: list.splits)

lemma clock_to_minutes_hhmm: "is_hhmm s \<Longrightarrow> clock_to_minutes s = Inr (hhmm_minutes s)"
  by (auto simp: is_hhmm_def hhmm_minutes_def clock_to_minutes_def is_digit_not_sign
      py_int_two_digits split: list.splits)

lemma slot_to_minutes_hhmm:
  "is_hhmm s \<Longrightarrow> slot_to_minutes (s @ CHR ''-'' # t) = Inr (hhmm_minutes s)"
  by (simp add: slot_to_minutes_clock str_split_prefix is_hhmm_no_dash clock_to_minutes_hhmm)

lemma split_label_hhmm:
  "is_hhmm s \<Longrightarrow> is_hhmm t \<Longrightarrow> str_split CHR ''-'' (s @ CHR ''-'' # t) = [s, t]"
  by (simp add: str_split_prefix str_split_no_sep is_hhmm_no_dash)

lemma slot_to_minutes_error: "slot_to_minutes l = Inl e \<Longrightarrow> e = ValueError"
  by (auto simp: slot_to_minutes_def py_int_def Let_def split: list.splits sum.splits option.splits if_splits)

lemma hour_label_split:
  assumes "length (str_split CHR ''-'' b) \<ge> 2"
  shows "str_split CHR ''-'' (hour_label a b) = [hd (str_split CHR ''-'' a), str_split CHR ''-'' b ! 1]"
proof -
  have "hd (str_split CHR ''-'' a) \<in> set (str_split CHR ''-'' a)" by simp
  then have 1: "CHR ''-'' \<notin> set (hd (str_split CHR ''-'' a))" by (rule str_split_pieces)
  have "str_split CHR ''-'' b ! 1 \<in> set (str_split CHR ''-'' b)" using assms by simp
  then have 2: "CHR ''-'' \<notin> set (str_split CHR ''-'' b ! 1)" by (rule str_split_pieces)
  show ?thesis using 1 2 by (simp add: hour_label_def str_split_prefix str_split_no_sep)
qed

lemma slot_end_Inr_length: "slot_end_to_minutes b = Inr e \<Longrightarrow> length (str_split CHR ''-'' b) \<ge> 2"
  by (auto simp: slot_end_to_minutes_def split: list.splits)

lemma slot_end_nth: "length (str_split CHR ''-'' b) \<ge> 2 \<Longrightarrow> slot_end_to_minutes b = clock_to_minutes (str_split CHR ''-'' b ! 1)"
  by (auto simp: slot_end_to_minutes_def split: list.splits)

lemma hour_label_start: "length (str_split CHR ''-'' b) \<ge> 2 \<Longrightarrow> slot_to_minutes (hour_label a b) = slot_to_minutes a"
  by (simp add: slot_to_minutes_clock hour_label_split)

lemma hour_label_end: "length (str_split CHR ''-'' b) \<ge> 2 \<Longrightarrow> slot_end_to_minutes (hour_label a b) = slot_end_to_minutes b"
  by (simp add: slot_end_nth hour_label_split)

lemma hour_blocks_rec_step:
  assumes "slot_to_minutes a = Inr ma" "slot_to_minutes b = Inr mb" "length (str_split CHR ''-'' b) \<ge> 2"
  shows "hour_blocks_rec (a # b # rest) =
     (if mb = ma + 30 then prepend [hour_label a b] (hour_blocks_rec rest) else hour_blocks_rec (b # rest))"
  using assms by (cases "str_split CHR ''-'' a"; cases "str_split CHR ''-'' b"; cases "tl (str_split CHR ''-'' b)")
   (auto simp: prepend_def hour_label_def split: sum.splits)

lemma half_hour_slot_pieces: "half_hour_slot l \<Longrightarrow> length (str_split CHR ''-'' l) \<ge> 2"
  by (auto simp: half_hour_slot_def dest: slot_end_Inr_length split: sum.splits)

lemma find_hour_blocks_step:
  assumes "half_hour_slot a" "half_hour_slot b"
  shows "find_hour_blocks (a # b # rest) =
     (if adjacent a b then prepend [hour_label a b] (find_hour_blocks rest)
      else find_hour_blocks (b # rest))"
proof -
  from assms obtain ma mb where m: "slot_to_minutes a = Inr ma" "slot_to_minutes b = Inr mb"
    and e: "slot_end_to_minutes a = Inr (ma + 30)"
    by (auto simp: half_hour_slot_def split: sum.splits)
  have adj: "adjacent a b \<longleftrightarrow> mb = ma + 30"
    using m e by (auto simp: adjacent_def)
  show ?thesis
    unfolding find_hour_blocks_rec adj
    by (rule hour_blocks_rec_step [OF m half_hour_slot_pieces [OF assms(2)]])
qed

lemma hour_label_span:
  assumes "half_hour_slot a" "half_hour_slot b" "adjacent a b"
  shows "\<exists>s. slot_to_minutes (hour_label a b) = Inr s
           \<and> slot_end_to_minutes (hour_label a b) = Inr (s + 60)"
proof -
  from assms obtain ma mb where m: "slot_to_minutes a = Inr ma" "slot_to_minutes b = Inr mb"
    and e: "slot_end_to_minutes a = Inr (ma + 30)" "slot_end_to_minutes b = Inr (mb + 30)"
    by (auto simp: half_hour_slot_def split: sum.splits)
  from assms(3) m e have "mb = ma + 30" by (auto simp: adjacent_def)
  with m e show ?thesis
    by (simp add: hour_label_start hour_label_end half_hour_slot_pieces [OF assms(2)])
qed

lemma hour_blocks_positions:
  "\<forall>l\<in>set xs. half_hour_slot l \<Longrightarrow>
   \<exists>ps. find_hour_blocks xs = Inr (map (\<lambda>i. hour_label (xs ! i) (xs ! (i + 1))) ps)
     \<and> (\<forall>i\<in>set ps. i + 1 < length xs \<and> adjacent (xs ! i) (xs ! (i + 1)))
     \<and> sorted_wrt (\<lambda>i j. i + 1 < j) ps"
proof (induction "length xs" arbitrary: xs rule: less_induct)
  case less
  show ?case
  proof (cases xs)
    case Nil
    then show ?thesis by (intro exI [of _ "[]"]) (simp add: find_hour_blocks_rec)
  next
    case xs: (Cons a ys)
    show ?thesis
    proof (cases ys)
      case Nil
      with xs show ?thesis by (intro exI [of _ "[]"]) (simp add: find_hour_blocks_rec)
    next
      case ys: (Cons b rest)
      from less.prems xs ys have hs: "half_hour_slot a" "half_hour_slot b" by simp_all
      note step = find_hour_blocks_step [OF hs, of rest]
      show ?thesis
      proof (cases "adjacent a b")
        case True
        from less.prems xs ys have "\<forall>l\<in>set rest. half_hour_slot l" by simp
        with less.hyps [of rest] xs ys obtain ps where
          ps: "find_hour_blocks rest = Inr (map (\<lambda>i. hour_label (rest ! i) (rest ! (i + 1))) ps)"
              "\<forall>i\<in>set ps. i + 1 < length rest \<and> adjacent (rest ! i) (rest ! (i + 1))"
              "sorted_wrt (\<lambda>i j. i + 1 < j) ps"
          by auto
        show ?thesis
          using True ps
          by (intro exI [of _ "0 # map (\<lambda>p. p + 2) ps"])
             (simp add: xs ys step prepend_def sorted_wrt_map comp_def)
      next
        case False
        from less.prems xs ys have "\<forall>l\<in>set (b # rest). half_hour_slot l" by simp
        with less.hyps [of "b # rest"] xs ys obtain ps where
          ps: "find_hour_blocks (b # rest) =
                 Inr (map (\<lambda>i. hour_label ((b # rest) ! i) ((b # rest) ! (i + 1))) ps)"
              "\<forall>i\<in>set ps. i + 1 < length (b # rest) \<and> adjacent ((b # rest) ! i) ((b # rest) ! (i + 1))"
              "sorted_wrt (\<lambda>i j. i + 1 < j) ps"
          by auto
        show ?thesis
          using False ps
          by (intro exI [of _ "map Suc ps"])
             (simp add: xs ys step sorted_wrt_map comp_def)
      qed
    qed
  qed
qed

lemmas label_eval =
  slot_to_minutes_def clock_to_minutes_def slot_end_to_minutes_def py_int_def str_strip_def
  py_isspace_def decimal_value_def is_digit_def digit_val_def Let_def

text \<open>
  C2. In 60-minute mode the list is scanned from the left. The empty list and a list of one
  slot give no block. For two half-hour slots \<open>a\<close>, \<open>b\<close> at the head: when they are
  adjacent, one block from the start of \<open>a\<close> to the end of \<open>b\<close> is emitted and the scan goes
  on after both; otherwise nothing is emitted for \<open>a\<close> and the scan goes on at \<open>b\<close>. The
  three slots 12:00-12:30, 12:30-13:00, 13:00-13:30 give the one block 12:00-13:00.
\<close>

theorem find_hour_blocks_scan:
  "find_hour_blocks [] = Inr []
   \<and> find_hour_blocks [a] = Inr []
   \<and> (half_hour_slot a \<and> half_hour_slot b \<longrightarrow>
        find_hour_blocks (a # b # rest) =
          (if adjacent a b then prepend [hour_label a b] (find_hour_blocks rest)
           else find_hour_blocks (b # rest))
        \<and> slot_to_minutes (hour_label a b) = slot_to_minutes a
        \<and> slot_end_to_minutes (hour_label a b) = slot_end_to_minutes b)
   \<and> find_hour_blocks [''12:00-12:30'', ''12:30-13:00'', ''13:00-13:30''] = Inr [''12:00-13:00'']"
proof -
  have "find_hour_blocks [''12:00-12:30'', ''12:30-13:00'', ''13:00-13:30''] = Inr [''12:00-13:00'']"
    by (simp add: find_hour_blocks_rec label_eval)
  then show ?thesis
    by (simp add: find_hour_blocks_rec [of "[]"] find_hour_blocks_rec [of "[a]"]
        find_hour_blocks_step hour_label_start hour_label_end half_hour_slot_pieces)
qed

theorem find_hour_blocks_scan_witness:
  "half_hour_slot ''14:00-14:30'' \<and> half_hour_slot ''14:30-15:00''
   \<and> adjacent ''14:00-14:30'' ''14:30-15:00''
   \<and> find_hour_blocks [''14:00-14:30'', ''14:30-15:00'', ''16:00-16:30''] = Inr [''14:00-15:00'']"
proof -
  have h: "half_hour_slot ''14:00-14:30''" "half_hour_slot ''14:30-15:00''"
    by (simp_all add: half_hour_slot_def label_eval)
  have a: "adjacent ''14:00-14:30'' ''14:30-15:00''"
    by (simp add: adjacent_def label_eval)
  have l: "hour_label ''14:00-14:30'' ''14:30-15:00'' = ''14:00-15:00''"
    by (simp add: hour_label_def)
  have "find_hour_blocks [''14:00-14:30'', ''14:30-15:00'', ''16:00-16:30''] =
          prepend [hour_label ''14:00-14:30'' ''14:30-15:00''] (find_hour_blocks [''16:00-16:30''])"
    using find_hour_blocks_scan [of "''14:00-14:30''" "''14:30-15:00''" "[''16:00-16:30'']"] h a
    by simp
  also have "\<dots> = Inr [''14:00-15:00'']"
    using find_hour_blocks_scan [of "''16:00-16:30''"] by (simp add: l prepend_def)
  finally show ?thesis using h a by simp
qed

text \<open>
  C9. On a list of half-hour slots the 60-minute mode returns, and its blocks are the
  merges at positions \<open>ps\<close> of the list: each position \<open>i\<close> merges the adjacent slots \<open>i\<close>
  and \<open>i + 1\<close>; the positions increase by at least two, so no slot is in two blocks (a slot
  in no pair is dropped); each block starts at some minute \<open>s\<close> and ends at \<open>s + 60\<close>.
\<close>

theorem find_hour_blocks_partition_or_drop:
  assumes "\<forall>l\<in>set xs. half_hour_slot l"
  shows "\<exists>ps. find_hour_blocks xs = Inr (map (\<lambda>i. hour_label (xs ! i) (xs ! (i + 1))) ps)
     \<and> (\<forall>i\<in>set ps. i + 1 < length xs \<and> adjacent (xs ! i) (xs ! (i + 1)))
     \<and> sorted_wrt (\<lambda>i j. i + 1 < j) ps
     \<and> (\<forall>i\<in>set ps. \<exists>s. slot_to_minutes (hour_label (xs ! i) (xs ! (i + 1))) = Inr s
            \<and> slot_end_to_minutes (hour_label (xs ! i) (xs ! (i + 1))) = Inr (s + 60))"
proof -
  from hour_blocks_positions [OF assms] obtain ps where
    ps: "find_hour_blocks xs = Inr (map (\<lambda>i. hour_label (xs ! i) (xs ! (i + 1))) ps)"
        "\<forall>i\<in>set ps. i + 1 < length xs \<and> adjacent (xs ! i) (xs ! (i + 1))"
        "sorted_wrt (\<lambda>i j. i + 1 < j) ps"
    by blast
  have "\<exists>s. slot_to_minutes (hour_label (xs ! i) (xs ! (i + 1))) = Inr s
            \<and> slot_end_to_minutes (hour_label (xs ! i) (xs ! (i + 1))) = Inr (s + 60)"
    if "i \<in> set ps" for i
  proof -
    from that ps(2) have i: "i + 1 < length xs" "adjacent (xs ! i) (xs ! (i + 1))" by auto
    with assms have "half_hour_slot (xs ! i)" "half_hour_slot (xs ! (i + 1))" by auto
    then show ?thesis using i(2) by (rule hour_label_span)
  qed
  with ps show ?thesis by blast
qed

theorem find_hour_blocks_partition_or_drop_witness:
  "half_hour_slot ''12:00-12:30'' \<and> half_hour_slot ''12:30-13:00'' \<and> half_hour_slot ''13:00-13:30''
   \<and> (\<exists>ps. find_hour_blocks [''12:00-12:30'', ''12:30-13:00'', ''13:00-13:30''] =
          Inr (map (\<lambda>i. hour_label ([''12:00-12:30'', ''12:30-13:00'', ''13:00-13:30''] ! i)
                     ([''12:00-12:30'', ''12:30-13:00'', ''13:00-13:30''] ! (i + 1))) ps)
        \<and> sorted_wrt (\<lambda>i j. i + 1 < j) ps)"
proof -
  have h: "half_hour_slot ''12:00-12:30''" "half_hour_slot ''12:30-13:00''"
    "half_hour_slot ''13:00-13:30''"
    by (simp_all add: half_hour_slot_def label_eval)
  then have "\<forall>l\<in>set [''12:00-12:30'', ''12:30-13:00'', ''13:00-13:30'']. half_hour_slot l"
    by simp
  from find_hour_blocks_partition_or_drop [OF this] h show ?thesis by blast
qed

text \<open>
  C10. For two labels of the form HH:MM-HH:MM at the head of the list, the 60-minute mode
  merges exactly when the start of the second is the start of the first plus 30 minutes;
  the merged label is the start of the first joined to the end of the second. The end of
  the first label does not occur in the result. So 12:00-13:00, which is no half-hour slot,
  is merged with 12:30-13:00, although the two are not adjacent.
\<close>

theorem find_hour_blocks_start_times_only:
  "(is_hhmm sa \<and> is_hhmm ea \<and> is_hhmm sb \<and> is_hhmm eb \<longrightarrow>
      find_hour_blocks ((sa @ ''-'' @ ea) # (sb @ ''-'' @ eb) # rest) =
        (if hhmm_minutes sb = hhmm_minutes sa + 30
         then prepend [sa @ ''-'' @ eb] (find_hour_blocks rest)
         else find_hour_blocks ((sb @ ''-'' @ eb) # rest)))
   \<and> find_hour_blocks [''12:00-13:00'', ''12:30-13:00''] = Inr [''12:00-13:00'']
   \<and> \<not> half_hour_slot ''12:00-13:00''
   \<and> \<not> adjacent ''12:00-13:00'' ''12:30-13:00''"
proof -
  have "find_hour_blocks ((sa @ ''-'' @ ea) # (sb @ ''-'' @ eb) # rest) =
        (if hhmm_minutes sb = hhmm_minutes sa + 30
         then prepend [sa @ ''-'' @ eb] (find_hour_blocks rest)
         else find_hour_blocks ((sb @ ''-'' @ eb) # rest))"
    if "is_hhmm sa" "is_hhmm ea" "is_hhmm sb" "is_hhmm eb"
  proof -
    have "hour_label (sa @ ''-'' @ ea) (sb @ ''-'' @ eb) = sa @ ''-'' @ eb"
      using that by (simp add: hour_label_def split_label_hhmm)
    moreover have "length (str_split CHR ''-'' (sb @ ''-'' @ eb)) \<ge> 2"
      using that by (simp add: split_label_hhmm)
    ultimately show ?thesis
      using that hour_blocks_rec_step [of "sa @ ''-'' @ ea" "hhmm_minutes sa" "sb @ ''-'' @ eb"
          "hhmm_minutes sb" rest]
      by (simp add: find_hour_blocks_rec slot_to_minutes_hhmm)
  qed
  moreover have "find_hour_blocks [''12:00-13:00'', ''12:30-13:00''] = Inr [''12:00-13:00'']"
    by (simp add: find_hour_blocks_rec label_eval)
  moreover have "\<not> half_hour_slot ''12:00-13:00''"
    by (simp add: half_hour_slot_def label_eval)
  moreover have "\<not> adjacent ''12:00-13:00'' ''12:30-13:00''"
    by (simp add: adjacent_def label_eval)
  ultimately show ?thesis by blast
qed

theorem find_hour_blocks_start_times_only_witness:
  "is_hhmm ''09:15'' \<and> is_hhmm ''11:00'' \<and> is_hhmm ''09:45'' \<and> is_hhmm ''10:00''
   \<and> hhmm_minutes ''09:45'' = hhmm_minutes ''09:15'' + 30
   \<and> find_hour_blocks [''09:15-11:00'', ''09:45-10:00''] = Inr [''09:15-10:00'']"
proof -
  have h: "is_hhmm ''09:15''" "is_hhmm ''11:00''" "is_hhmm ''09:45''" "is_hhmm ''10:00''"
    by (simp_all add: is_hhmm_def is_digit_def)
  have m: "hhmm_minutes ''09:45'' = hhmm_minutes ''09:15'' + 30"
    by (simp add: hhmm_minutes_def digit_val_def)
  have "find_hour_blocks ((''09:15'' @ ''-'' @ ''11:00'') # (''09:45'' @ ''-'' @ ''10:00'') # []) =
          prepend [''09:15'' @ ''-'' @ ''10:00''] (find_hour_blocks [])"
    using find_hour_blocks_start_times_only [of "''09:15''" "''11:00''" "''09:45''" "''10:00''" "[]"] h m
    by simp
  then show ?thesis using h m by (simp add: find_hour_blocks_rec prepend_def)
qed

section \<open>Intersection and sorting\<close>

lemma set_py_set [simp]: "set (py_set xs) = set xs"
  by (induction xs) auto

lemma distinct_py_set [simp]: "distinct (py_set xs)"
  by (induction xs) auto

lemma set_set_intersection [simp]: "set (set_intersection so other) = set so \<inter> set other"
  by (auto simp: set_intersection_def)

lemma distinct_set_intersection [simp]: "distinct (set_intersection so other)"
  by (simp add: set_intersection_def)

lemma day_lookup_cases:
  "day_lookup sd p tag = (if has_day sd p tag then Inr (slots_of sd p tag) else Inl KeyError)"
  by (auto simp: has_day_def slots_of_def day_lookup_def split: option.splits)

lemma intersect_loop_eq:
  "intersect_loop sd tag ps S =
     (if \<forall>p\<in>set ps. has_day sd p tag
      then Inr (foldl set_intersection S (map (\<lambda>p. slots_of sd p tag) ps))
      else Inl KeyError)"
  by (induction ps arbitrary: S) (auto simp: day_lookup_cases)

lemma set_foldl_intersection:
  "set (foldl set_intersection S ls) = set S \<inter> (\<Inter>l\<in>set ls. set l)"
  by (induction ls arbitrary: S) auto

lemma distinct_foldl_intersection:
  "distinct S \<Longrightarrow> distinct (foldl set_intersection S ls)"
  by (induction ls arbitrary: S) auto

lemma set_common_set:
  "persons \<noteq> [] \<Longrightarrow> set (common_set sd persons tag) = (\<Inter>p\<in>set persons. set (slots_of sd p tag))"
  by (cases persons) (auto simp: common_set_def set_foldl_intersection)

lemma distinct_common_set [simp]: "distinct (common_set sd persons tag)"
  by (simp add: common_set_def distinct_foldl_intersection)

lemma slot_to_minutes_cases:
  "slot_to_minutes l = (if parses l then Inr (start_minutes l) else Inl ValueError)"
  by (auto simp: parses_def start_minutes_def split: sum.splits dest: slot_to_minutes_error)

lemma minute_keys_eq:
  "minute_keys xs =
     (if \<forall>l\<in>set xs. parses l then Inr (map start_minutes xs) else Inl ValueError)"
  by (induction xs) (auto simp: slot_to_minutes_cases)

lemma insort_key_decorated:
  "\<forall>p\<in>set ys. fst p = f (snd p) \<Longrightarrow>
   map snd (insort_key fst (f x, x) ys) = insort_key f x (map snd ys)"
  by (induction ys) auto

lemma sort_key_decorated:
  "map snd (sort_key fst (zip (map f xs) xs)) = sort_key f xs
   \<and> (\<forall>p\<in>set (sort_key fst (zip (map f xs) xs)). fst p = f (snd p))"
proof (induction xs)
  case Nil
  then show ?case by simp
next
  case (Cons x xs)
  then show ?case
    by (simp add: insort_key_decorated) (auto simp: set_insort_key)
qed

lemma sorted_by_minutes_eq:
  "sorted_by_minutes xs =
     (if \<forall>l\<in>set xs. parses l then Inr (sort_key start_minutes xs) else Inl ValueError)"
  by (simp add: sorted_by_minutes_def minute_keys_eq sort_key_decorated)

lemma set_order_set: "set_order_ok order \<Longrightarrow> distinct xs \<Longrightarrow> set (order xs) = set xs"
  by (metis set_order_ok_def mset_eq_setD)

lemma set_order_distinct: "set_order_ok order \<Longrightarrow> distinct xs \<Longrightarrow> distinct (order xs)"
  by (metis set_order_ok_def mset_eq_imp_distinct_iff)

lemma day_common_eq:
  assumes "set_order_ok order" "persons \<noteq> []"
  shows "day_common order sd ml persons tag =
     (if \<forall>p\<in>set persons. has_day sd p tag then
        if \<forall>l\<in>set (common_set sd persons tag). parses l then
          if ml = 30 then Inr (sort_key start_minutes (order (common_set sd persons tag)))
          else find_hour_blocks (sort_key start_minutes (order (common_set sd persons tag)))
        else Inl ValueError
      else Inl KeyError)"
proof (cases persons)
  case Nil
  with assms show ?thesis by simp
next
  case (Cons p0 rest)
  have s: "set (order (common_set sd persons tag)) = set (common_set sd persons tag)"
    using assms(1) by (simp add: set_order_set)
  show ?thesis
    using s unfolding Cons
    by (simp add: day_common_def day_lookup_cases intersect_loop_eq sorted_by_minutes_eq
        common_set_def)
qed

section \<open>The loop over the weekdays\<close>

lemma tage_loop_cong:
  "\<forall>t\<in>set tags. day_common order sd ml ps t = day_common order' sd' ml' ps' t \<Longrightarrow>
   tage_loop order sd ml ps tags acc = tage_loop order' sd' ml' ps' tags acc"
  by (induction tags arbitrary: acc) (auto split: sum.splits)

lemma tage_loop_other:
  "tage_loop order sd ml ps tags acc = Inr common \<Longrightarrow> t \<notin> set tags \<Longrightarrow>
   map_of common t = map_of acc t"
  by (induction tags arbitrary: acc) (auto split: sum.splits simp: update_conv')

lemma tage_loop_day:
  "tage_loop order sd ml ps tags acc = Inr common \<Longrightarrow> t \<in> set tags \<Longrightarrow>
   \<exists>v. day_common order sd ml ps t = Inr v \<and> map_of common t = Some v"
proof (induction tags arbitrary: acc)
  case Nil
  then show ?case by simp
next
  case (Cons tag tags)
  from Cons.prems(1) obtain v where v: "day_common order sd ml ps tag = Inr v"
    and r: "tage_loop order sd ml ps tags (AList.update tag v acc) = Inr common"
    by (auto split: sum.splits)
  show ?case
  proof (cases "t \<in> set tags")
    case True
    with Cons.IH r show ?thesis by blast
  next
    case False
    with Cons.prems(2) have "t = tag" by simp
    moreover from tage_loop_other [OF r False] have "map_of common t = map_of (AList.update tag v acc) t" .
    ultimately show ?thesis using v by (simp add: update_conv')
  qed
qed

lemma tage_loop_TAGE:
  assumes "\<forall>t\<in>set TAGE. \<exists>v. day_common order sd ml ps t = Inr v"
  shows "\<exists>common. tage_loop order sd ml ps TAGE [] = Inr common \<and> map fst common = TAGE"
proof -
  from assms obtain v1 v2 v3 v4 v5 where
    "day_common order sd ml ps ''Montag'' = Inr v1"
    "day_common order sd ml ps ''Dienstag'' = Inr v2"
    "day_common order sd ml ps ''Mittwoch'' = Inr v3"
    "day_common order sd ml ps ''Donnerstag'' = Inr v4"
    "day_common order sd ml ps ''Freitag'' = Inr v5"
    unfolding TAGE_def by auto
  then show ?thesis
    by (simp add: TAGE_def)
qed

lemma find_common_slots_days:
  assumes "find_common_slots order sd ml = Inr common" "2 \<le> length sd" "t \<in> set TAGE"
  shows "\<exists>v. day_common order sd ml (map fst sd) t = Inr v \<and> map_of common t = Some v"
  using assms by (auto simp: find_common_slots_def Let_def intro: tage_loop_day)

lemmas common_eval =
  find_common_slots_def TAGE_def day_common_def day_lookup_def set_intersection_def
  sorted_by_minutes_def find_hour_blocks_rec label_eval

lemma sort_key_unique:
  assumes "distinct xs" "distinct ys" "set xs = set ys" "inj_on f (set xs)"
  shows "sort_key f xs = sort_key f ys"
proof -
  have "map f (sort_key f xs) = map f (sort_key f ys)"
    using assms by (intro sorted_distinct_set_unique) (simp_all add: distinct_map)
  moreover have "inj_on f (set (sort_key f xs) \<union> set (sort_key f ys))"
    using assms by simp
  ultimately show ?thesis by (simp add: inj_on_map_eq_map)
qed

lemma map_of_subset:
  assumes "distinct (map fst super)" "set sub \<subseteq> set super" "p \<in> set (map fst sub)"
  shows "map_of sub p = map_of super p"
proof -
  from assms(3) obtain d where d: "map_of sub p = Some d"
    by (cases "map_of sub p") (auto simp: map_of_eq_None_iff)
  then have "(p, d) \<in> set sub" by (rule map_of_SomeD)
  with assms(2) have "(p, d) \<in> set super" by auto
  with assms(1) have "map_of super p = Some d" by simp
  with d show ?thesis by simp
qed

lemma find_common_slots_day_set:
  assumes "set_order_ok order" "2 \<le> length sd" "find_common_slots order sd 30 = Inr common"
    "t \<in> set TAGE"
  shows "(\<forall>p\<in>set (map fst sd). has_day sd p t)
     \<and> map_of common t = Some (sort_key start_minutes (order (common_set sd (map fst sd) t)))
     \<and> set (common_get common t) = (\<Inter>p\<in>set (map fst sd). set (slots_of sd p t))"
proof -
  from assms(2) have ne: "map fst sd \<noteq> []" by auto
  from find_common_slots_days [OF assms(3) assms(2) assms(4)] obtain v where
    v: "day_common order sd 30 (map fst sd) t = Inr v" "map_of common t = Some v" by blast
  from v(1) have h: "\<forall>p\<in>set (map fst sd). has_day sd p t"
    and v': "v = sort_key start_minutes (order (common_set sd (map fst sd) t))"
    unfolding day_common_eq [OF assms(1) ne] by (auto split: if_splits)
  have "set v = (\<Inter>p\<in>set (map fst sd). set (slots_of sd p t))"
    unfolding v' using assms(1) ne by (simp add: set_order_set set_common_set)
  with h v v' show ?thesis by (simp add: common_get_def)
qed

text \<open>
  C1. Let at least two persons be chosen, each with a list for every weekday, and let every
  label that all of them have on a day parse. Then in 30-minute mode the function returns a
  dictionary with the five weekdays as keys, in their order. The list of a day is the sort,
  by start minutes, of the enumeration of the set that the loop leaves: the set of the first
  person intersected from left to right with the lists of the others. Its elements are the
  labels that every chosen person has on that day, each once, in ascending order of start.
\<close>

theorem find_common_slots_intersection:
  assumes "set_order_ok order" and "2 \<le> length selected_data"
    and "\<forall>p\<in>set (map fst selected_data). \<forall>t\<in>set TAGE. has_day selected_data p t"
    and "\<forall>t\<in>set TAGE. \<forall>l. (\<forall>p\<in>set (map fst selected_data). l \<in> set (slots_of selected_data p t))
           \<longrightarrow> parses l"
  shows "\<exists>common. find_common_slots order selected_data 30 = Inr common
     \<and> map fst common = TAGE
     \<and> (\<forall>t\<in>set TAGE. \<exists>ys. map_of common t = Some ys
          \<and> ys = sort_key start_minutes
                   (order (foldl set_intersection
                      (py_set (slots_of selected_data (hd (map fst selected_data)) t))
                      (map (\<lambda>p. slots_of selected_data p t) (tl (map fst selected_data)))))
          \<and> set ys = (\<Inter>p\<in>set (map fst selected_data). set (slots_of selected_data p t))
          \<and> distinct ys \<and> sorted (map start_minutes ys))"
proof -
  let ?ps = "map fst selected_data"
  from assms(2) have ne: "?ps \<noteq> []" by auto
  have day: "day_common order selected_data 30 ?ps t =
      Inr (sort_key start_minutes (order (common_set selected_data ?ps t)))"
    if "t \<in> set TAGE" for t
  proof -
    have "\<forall>l\<in>set (common_set selected_data ?ps t). parses l"
      using assms(4) that ne by (simp add: set_common_set)
    with assms(3) that show ?thesis
      unfolding day_common_eq [OF assms(1) ne] by simp
  qed
  then have "\<forall>t\<in>set TAGE. \<exists>v. day_common order selected_data 30 ?ps t = Inr v" by blast
  from tage_loop_TAGE [OF this] obtain common where
    c: "tage_loop order selected_data 30 ?ps TAGE [] = Inr common" "map fst common = TAGE"
    by blast
  from c(1) assms(2) have f: "find_common_slots order selected_data 30 = Inr common"
    by (simp add: find_common_slots_def)
  have "\<exists>ys. map_of common t = Some ys
          \<and> ys = sort_key start_minutes (order (common_set selected_data ?ps t))
          \<and> set ys = (\<Inter>p\<in>set ?ps. set (slots_of selected_data p t))
          \<and> distinct ys \<and> sorted (map start_minutes ys)"
    if "t \<in> set TAGE" for t
  proof -
    from find_common_slots_day_set [OF assms(1) assms(2) f that]
    have m: "map_of common t =
        Some (sort_key start_minutes (order (common_set selected_data ?ps t)))"
      and s: "set (common_get common t) = (\<Inter>p\<in>set ?ps. set (slots_of selected_data p t))"
      by simp_all
    from m s show ?thesis
      using assms(1) by (simp add: common_get_def set_order_distinct)
  qed
  with f c(2) show ?thesis unfolding common_set_def by blast
qed

theorem find_common_slots_intersection_witness:
  "set_order_ok id
   \<and> find_common_slots id
       [(''Dodi'', week [''12:00-12:30'', ''12:30-13:00''] [''12:00-12:30'', ''12:30-13:00'']),
        (''Noah'', week [''12:30-13:00'', ''13:00-13:30''] [''12:30-13:00'', ''12:00-12:30''])] 30 =
     Inr [(''Montag'', [''12:30-13:00'']), (''Dienstag'', [''12:00-12:30'', ''12:30-13:00'']),
          (''Mittwoch'', []), (''Donnerstag'', []), (''Freitag'', [])]
   \<and> (\<exists>common. find_common_slots id
       [(''Dodi'', week [''12:00-12:30'', ''12:30-13:00''] [''12:00-12:30'', ''12:30-13:00'']),
        (''Noah'', week [''12:30-13:00'', ''13:00-13:30''] [''12:30-13:00'', ''12:00-12:30''])] 30 =
          Inr common \<and> map fst common = TAGE)"
proof -
  let ?sd = "[(''Dodi'', week [''12:00-12:30'', ''12:30-13:00''] [''12:00-12:30'', ''12:30-13:00'']),
        (''Noah'', week [''12:30-13:00'', ''13:00-13:30''] [''12:30-13:00'', ''12:00-12:30''])]"
  have o: "set_order_ok id" by (simp add: set_order_ok_def)
  have l: "2 \<le> length ?sd" by simp
  have d: "\<forall>p\<in>set (map fst ?sd). \<forall>t\<in>set TAGE. has_day ?sd p t"
    by (simp add: TAGE_def has_day_def day_lookup_def)
  have p: "\<forall>t\<in>set TAGE. \<forall>l. (\<forall>p\<in>set (map fst ?sd). l \<in> set (slots_of ?sd p t)) \<longrightarrow> parses l"
    by (auto simp: TAGE_def slots_of_def day_lookup_def parses_def label_eval)
  have e: "find_common_slots id ?sd 30 =
     Inr [(''Montag'', [''12:30-13:00'']), (''Dienstag'', [''12:00-12:30'', ''12:30-13:00'']),
          (''Mittwoch'', []), (''Donnerstag'', []), (''Freitag'', [])]"
    by (simp add: common_eval)
  from find_common_slots_intersection [OF o l d p] have
    "\<exists>common. find_common_slots id ?sd 30 = Inr common \<and> map fst common = TAGE" by blast
  with o e show ?thesis by blast
qed

text \<open>
  C3 (as amended). With fewer than two persons the function returns the empty dictionary:
  it has no entry for any weekday. Read with \<open>common.get(t, [])\<close>, as \<open>main\<close> reads it, every
  weekday gives the empty list.
\<close>

theorem find_common_slots_fewer_than_two:
  assumes "length selected_data < 2"
  shows "find_common_slots order selected_data meeting_length = Inr []
     \<and> (\<forall>t. map_of (projr (find_common_slots order selected_data meeting_length)) t = None
            \<and> common_get (projr (find_common_slots order selected_data meeting_length)) t = [])"
  using assms by (simp add: find_common_slots_def common_get_def)

theorem find_common_slots_fewer_than_two_witness:
  "length [(''Dodi'', week [''12:00-12:30''] [])] < 2
   \<and> find_common_slots id [(''Dodi'', week [''12:00-12:30''] [])] 30 = Inr []
   \<and> common_get (projr (find_common_slots id [(''Dodi'', week [''12:00-12:30''] [])] 30))
        ''Montag'' = []"
proof -
  have l: "length [(''Dodi'', week [''12:00-12:30''] [])] < 2" by simp
  from find_common_slots_fewer_than_two [OF l, of id 30] l show ?thesis by blast
qed

theorem find_common_slots_fewer_than_two_counterexample:
  "find_common_slots id [(''Dodi'', week [''12:00-12:30''] [])] 30 = Inr []
   \<and> map_of (projr (find_common_slots id [(''Dodi'', week [''12:00-12:30''] [])] 30)) ''Montag''
       \<noteq> Some []"
  by (simp add: find_common_slots_def)




lemma tage_loop_ValueError:
  "\<forall>t\<in>set tags. (\<exists>v. day_common order sd ml ps t = Inr v)
             \<or> day_common order sd ml ps t = Inl ValueError \<Longrightarrow>
   \<exists>t\<in>set tags. day_common order sd ml ps t = Inl ValueError \<Longrightarrow>
   tage_loop order sd ml ps tags acc = Inl ValueError"
proof (induction tags arbitrary: acc)
  case Nil
  then show ?case by simp
next
  case (Cons tag tags)
  show ?case
  proof (cases "day_common order sd ml ps tag")
    case (Inl e)
    with Cons.prems(1) show ?thesis by auto
  next
    case (Inr v)
    with Cons.prems(2) have "\<exists>t\<in>set tags. day_common order sd ml ps t = Inl ValueError"
      by auto
    moreover from Cons.prems(1) have "\<forall>t\<in>set tags. (\<exists>v. day_common order sd ml ps t = Inr v)
             \<or> day_common order sd ml ps t = Inl ValueError" by simp
    ultimately show ?thesis using Cons.IH Inr by simp
  qed
qed

text \<open>
  C6 (as amended). The grid is not consulted. When the function returns in 30-minute mode
  for at least two persons, the list of a weekday holds exactly the labels that every
  chosen person has on that day, in the grid or not; so it holds only labels of the grid
  when the list of one of the persons does. When every chosen person has a list for every
  weekday and, on some weekday, a label that all of them have does not parse, the function
  raises \<open>ValueError\<close> in 30-minute mode.
\<close>

theorem find_common_slots_labels:
  assumes "set_order_ok order" and "2 \<le> length selected_data"
  shows "(\<forall>common. \<forall>t\<in>set TAGE. find_common_slots order selected_data 30 = Inr common \<longrightarrow>
            set (common_get common t) =
              (\<Inter>p\<in>set (map fst selected_data). set (slots_of selected_data p t))
            \<and> (\<forall>p\<in>set (map fst selected_data).
                 set (slots_of selected_data p t) \<subseteq> set (projr HALF_HOUR_SLOTS)
                 \<longrightarrow> set (common_get common t) \<subseteq> set (projr HALF_HOUR_SLOTS)))
     \<and> ((\<forall>p\<in>set (map fst selected_data). \<forall>t\<in>set TAGE. has_day selected_data p t)
          \<and> (\<exists>t\<in>set TAGE. \<exists>l. (\<forall>p\<in>set (map fst selected_data).
                 l \<in> set (slots_of selected_data p t)) \<and> \<not> parses l)
          \<longrightarrow> find_common_slots order selected_data 30 = Inl ValueError)"
proof -
  let ?ps = "map fst selected_data"
  from assms(2) have ne: "?ps \<noteq> []" by auto
  have a: "set (common_get common t) = (\<Inter>p\<in>set ?ps. set (slots_of selected_data p t))"
    if "t \<in> set TAGE" "find_common_slots order selected_data 30 = Inr common" for common t
    using find_common_slots_day_set [OF assms that(2) that(1)] by simp
  have b: "find_common_slots order selected_data 30 = Inl ValueError"
    if h: "\<forall>p\<in>set ?ps. \<forall>t\<in>set TAGE. has_day selected_data p t"
      and u: "\<exists>t\<in>set TAGE. \<exists>l. (\<forall>p\<in>set ?ps. l \<in> set (slots_of selected_data p t)) \<and> \<not> parses l"
  proof -
    have d: "day_common order selected_data 30 ?ps t =
        (if \<forall>l\<in>set (common_set selected_data ?ps t). parses l
         then Inr (sort_key start_minutes (order (common_set selected_data ?ps t)))
         else Inl ValueError)" if "t \<in> set TAGE" for t
      using h that unfolding day_common_eq [OF assms(1) ne] by simp
    from u obtain t l where t: "t \<in> set TAGE"
      and l: "\<forall>p\<in>set ?ps. l \<in> set (slots_of selected_data p t)" "\<not> parses l" by blast
    from l ne have "\<not> (\<forall>l\<in>set (common_set selected_data ?ps t). parses l)"
      by (auto simp: set_common_set)
    with d [OF t] have "day_common order selected_data 30 ?ps t = Inl ValueError" by simp
    with t have 1: "\<exists>t\<in>set TAGE. day_common order selected_data 30 ?ps t = Inl ValueError"
      by blast
    have 2: "\<forall>t\<in>set TAGE. (\<exists>v. day_common order selected_data 30 ?ps t = Inr v)
             \<or> day_common order selected_data 30 ?ps t = Inl ValueError"
      using d by simp
    from tage_loop_ValueError [OF 2 1] assms(2) show ?thesis
      by (simp add: find_common_slots_def)
  qed
  from a b show ?thesis by blast
qed

theorem find_common_slots_labels_witness:
  "set_order_ok id
   \<and> find_common_slots id
       [(''Dodi'', week [''08:00-08:30'', ''12:00-12:30'', ''12:30-13:00''] []),
        (''Noah'', week [''12:30-13:00'', ''12:00-12:30''] [])] 30 =
     Inr [(''Montag'', [''12:00-12:30'', ''12:30-13:00'']), (''Dienstag'', []), (''Mittwoch'', []),
          (''Donnerstag'', []), (''Freitag'', [])]
   \<and> ''Montag'' \<in> set TAGE
   \<and> set (slots_of [(''Dodi'', week [''08:00-08:30'', ''12:00-12:30'', ''12:30-13:00''] []),
        (''Noah'', week [''12:30-13:00'', ''12:00-12:30''] [])] ''Noah'' ''Montag'')
       \<subseteq> set (projr HALF_HOUR_SLOTS)
   \<and> set (common_get [(''Montag'', [''12:00-12:30'', ''12:30-13:00'']), (''Dienstag'', []),
          (''Mittwoch'', []), (''Donnerstag'', []), (''Freitag'', [])] ''Montag'')
       \<subseteq> set (projr HALF_HOUR_SLOTS)
   \<and> \<not> parses ''besetzt''
   \<and> find_common_slots id
       [(''Dodi'', week [''12:00-12:30''] [''besetzt'', ''12:00-12:30'']),
        (''Noah'', week [] [''besetzt''])] 30 = Inl ValueError"
proof -
  let ?sd = "[(''Dodi'', week [''08:00-08:30'', ''12:00-12:30'', ''12:30-13:00''] []),
        (''Noah'', week [''12:30-13:00'', ''12:00-12:30''] [])]"
  let ?c = "[(''Montag'', [''12:00-12:30'', ''12:30-13:00'']), (''Dienstag'', []),
          (''Mittwoch'', []), (''Donnerstag'', []), (''Freitag'', [])]"
  let ?bad = "[(''Dodi'', week [''12:00-12:30''] [''besetzt'', ''12:00-12:30'']),
        (''Noah'', week [] [''besetzt''])]"
  have o: "set_order_ok id" by (simp add: set_order_ok_def)
  have l: "2 \<le> length ?sd" by simp
  have e: "find_common_slots id ?sd 30 = Inr ?c" by (simp add: common_eval)
  have t: "''Montag'' \<in> set TAGE" by (simp add: TAGE_def)
  have g: "set (slots_of ?sd ''Noah'' ''Montag'') \<subseteq> set (projr HALF_HOUR_SLOTS)"
    by (simp add: slots_of_def day_lookup_def HALF_HOUR_SLOTS_def grid_12_00_21_30)
  have n: "''Noah'' \<in> set (map fst ?sd)" by simp
  from find_common_slots_labels [OF o l] e t n g
  have 1: "set (common_get ?c ''Montag'') \<subseteq> set (projr HALF_HOUR_SLOTS)" by blast
  have l': "2 \<le> length ?bad" by simp
  have h: "\<forall>p\<in>set (map fst ?bad). \<forall>t\<in>set TAGE. has_day ?bad p t"
    by (simp add: TAGE_def has_day_def day_lookup_def)
  have np: "\<not> parses ''besetzt''" by (simp add: parses_def label_eval)
  have "''Dienstag'' \<in> set TAGE" by (simp add: TAGE_def)
  moreover have "\<forall>p\<in>set (map fst ?bad). ''besetzt'' \<in> set (slots_of ?bad p ''Dienstag'')"
    by (simp add: slots_of_def day_lookup_def)
  ultimately have u: "\<exists>t\<in>set TAGE. \<exists>l. (\<forall>p\<in>set (map fst ?bad).
                 l \<in> set (slots_of ?bad p t)) \<and> \<not> parses l"
    using np by blast
  from find_common_slots_labels [OF o l'] h u
  have 2: "find_common_slots id ?bad 30 = Inl ValueError" by blast
  from o e t g 1 np 2 show ?thesis by blast
qed

theorem find_common_slots_labels_counterexample:
  "find_common_slots id
       [(''Dodi'', week [''08:00-08:30'', ''12:00-12:30''] [''besetzt'']),
        (''Noah'', week [''08:00-08:30''] [])] 30 =
     Inr [(''Montag'', [''08:00-08:30'']), (''Dienstag'', []), (''Mittwoch'', []),
          (''Donnerstag'', []), (''Freitag'', [])]
   \<and> ''08:00-08:30'' \<notin> set (projr HALF_HOUR_SLOTS)
   \<and> find_common_slots id
       [(''Dodi'', week [] [''besetzt'']),
        (''Noah'', week [] [''besetzt''])] 30 = Inl ValueError"
  by (simp add: common_eval HALF_HOUR_SLOTS_def grid_12_00_21_30)

lemma has_day_lookup: "day_lookup sd' p t = day_lookup sd p t \<Longrightarrow>
  has_day sd' p t = has_day sd p t \<and> slots_of sd' p t = slots_of sd p t"
  by (simp add: has_day_def slots_of_def)

lemma day_common_same_set:
  assumes o: "set_order_ok order" "set_order_ok order'"
    and ne: "persons \<noteq> []" "persons' \<noteq> []"
    and ps: "set persons' = set persons"
    and lk: "\<forall>p\<in>set persons. day_lookup sd' p t = day_lookup sd p t"
    and u: "\<exists>p\<in>set persons. starts_unique (slots_of sd p t)"
  shows "day_common order' sd' ml persons' t = day_common order sd ml persons t"
proof -
  let ?S = "common_set sd persons t" and ?S' = "common_set sd' persons' t"
  from lk have hs: "\<forall>p\<in>set persons. has_day sd' p t = has_day sd p t \<and> slots_of sd' p t = slots_of sd p t"
    by (blast dest: has_day_lookup)
  then have set_eq: "set ?S' = set ?S"
    using ne ps by (simp add: set_common_set)
  have sorted_eq: "sort_key start_minutes (order' ?S') = sort_key start_minutes (order ?S)"
    if all: "\<forall>l\<in>set ?S. parses l"
  proof -
    from u obtain p where p: "p \<in> set persons" "starts_unique (slots_of sd p t)" by blast
    from p(1) ne have sub: "set ?S \<subseteq> set (slots_of sd p t)"
      by (auto simp: set_common_set)
    have inj: "inj_on start_minutes (set ?S)"
    proof (rule inj_onI)
      fix l l' assume "l \<in> set ?S" "l' \<in> set ?S" "start_minutes l = start_minutes l'"
      with all sub p(2) show "l = l'"
        unfolding starts_unique_def by blast
    qed
    have "set (order' ?S') = set (order ?S)"
      using o set_eq by (simp add: set_order_set)
    moreover have "inj_on start_minutes (set (order' ?S'))"
      using inj o set_eq by (simp add: set_order_set)
    ultimately show ?thesis
      using o by (intro sort_key_unique) (simp_all add: set_order_distinct)
  qed
  have c1: "(\<forall>p\<in>set persons'. has_day sd' p t) = (\<forall>p\<in>set persons. has_day sd p t)"
    using hs unfolding ps by blast
  have c2: "(\<forall>l\<in>set ?S'. parses l) = (\<forall>l\<in>set ?S. parses l)"
    unfolding set_eq ..
  show ?thesis
  proof (cases "\<forall>l\<in>set ?S. parses l")
    case True
    then show ?thesis
      unfolding day_common_eq [OF o(1) ne(1)] day_common_eq [OF o(2) ne(2)] c1 c2
      by (simp only: sorted_eq [OF True])
  next
    case False
    then show ?thesis
      unfolding day_common_eq [OF o(1) ne(1)] day_common_eq [OF o(2) ne(2)] c1 c2
      by (simp only: if_False)
  qed
qed

lemma update_related:
  "list_all2 (rel_prod (=) (\<lambda>v v'. mset v = mset v')) acc acc' \<Longrightarrow> mset v = mset v' \<Longrightarrow>
   list_all2 (rel_prod (=) (\<lambda>v v'. mset v = mset v'))
     (AList.update k v acc) (AList.update k v' acc')"
  by (induction acc acc' rule: list_all2_induct) auto

lemma common_get_related:
  "list_all2 (rel_prod (=) (\<lambda>v v'. mset v = mset v')) c c' \<Longrightarrow>
   map fst c = map fst c' \<and> mset (common_get c t) = mset (common_get c' t)"
  by (induction c c' rule: list_all2_induct) (auto simp: common_get_def)

lemma tage_loop_related:
  "\<forall>t\<in>set tags. rel_sum (=) (\<lambda>v v'. mset v = mset v')
       (day_common order sd ml ps t) (day_common order' sd' ml' ps' t) \<Longrightarrow>
   list_all2 (rel_prod (=) (\<lambda>v v'. mset v = mset v')) acc acc' \<Longrightarrow>
   rel_sum (=) (list_all2 (rel_prod (=) (\<lambda>v v'. mset v = mset v')))
     (tage_loop order sd ml ps tags acc) (tage_loop order' sd' ml' ps' tags acc')"
proof (induction tags arbitrary: acc acc')
  case Nil
  then show ?case by simp
next
  case (Cons tag tags)
  from Cons.prems(1) have r: "rel_sum (=) (\<lambda>v v'. mset v = mset v')
       (day_common order sd ml ps tag) (day_common order' sd' ml' ps' tag)" by simp
  then consider (err) e where "day_common order sd ml ps tag = Inl e"
      "day_common order' sd' ml' ps' tag = Inl e"
    | (ok) v v' where "day_common order sd ml ps tag = Inr v"
      "day_common order' sd' ml' ps' tag = Inr v'" "mset v = mset v'"
    by (auto simp: rel_sum.simps)
  then show ?case
  proof cases
    case err
    then show ?thesis by simp
  next
    case ok
    with Cons.prems(2) have "list_all2 (rel_prod (=) (\<lambda>v v'. mset v = mset v'))
        (AList.update tag v acc) (AList.update tag v' acc')"
      by (simp add: update_related)
    moreover from Cons.prems(1) have "\<forall>t\<in>set tags. rel_sum (=) (\<lambda>v v'. mset v = mset v')
       (day_common order sd ml ps t) (day_common order' sd' ml' ps' t)" by simp
    ultimately show ?thesis using Cons.IH ok by simp
  qed
qed

lemma day_common_30_related:
  assumes o: "set_order_ok order" "set_order_ok order'"
    and ne: "persons \<noteq> []" "persons' \<noteq> []"
    and ps: "set persons' = set persons"
    and lk: "\<forall>p\<in>set persons. day_lookup sd' p t = day_lookup sd p t"
  shows "rel_sum (=) (\<lambda>v v'. mset v = mset v')
           (day_common order' sd' 30 persons' t) (day_common order sd 30 persons t)"
proof -
  let ?S = "common_set sd persons t" and ?S' = "common_set sd' persons' t"
  from lk have hs: "\<forall>p\<in>set persons. has_day sd' p t = has_day sd p t \<and> slots_of sd' p t = slots_of sd p t"
    by (blast dest: has_day_lookup)
  then have set_eq: "set ?S' = set ?S"
    using ne ps by (simp add: set_common_set)
  then have "mset ?S' = mset ?S"
    by (simp add: set_eq_iff_mset_eq_distinct [symmetric])
  moreover have "mset (order' ?S') = mset ?S'" "mset (order ?S) = mset ?S"
    using o by (simp_all add: set_order_ok_def)
  ultimately have m: "mset (sort_key start_minutes (order' ?S')) =
      mset (sort_key start_minutes (order ?S))"
    by simp
  have c1: "(\<forall>p\<in>set persons'. has_day sd' p t) = (\<forall>p\<in>set persons. has_day sd p t)"
    using hs unfolding ps by blast
  have c2: "(\<forall>l\<in>set ?S'. parses l) = (\<forall>l\<in>set ?S. parses l)"
    unfolding set_eq ..
  show ?thesis
    unfolding day_common_eq [OF o(1) ne(1)] day_common_eq [OF o(2) ne(2)] c1 c2
    using m by simp
qed

text \<open>
  C7 (as amended). Let the persons of a selection be supplied in another order. In 30-minute
  mode the function then raises the same exception, or it returns for both orders
  dictionaries with the same keys whose lists, day by day, hold the same labels, each as
  often. When, within each stored list, labels with the same start minute are the same label,
  the result is the same for both orders, be it a dictionary or an exception and whatever
  the meeting length. All this holds for any two enumeration orders of the sets.
\<close>

theorem find_common_slots_order_of_persons:
  assumes "set_order_ok order" and "set_order_ok order'"
    and "distinct (map fst selected_data)"
    and "mset selected_data' = mset selected_data"
  shows "(\<forall>e. find_common_slots order' selected_data' 30 = Inl e
            \<longleftrightarrow> find_common_slots order selected_data 30 = Inl e)
     \<and> (\<forall>common common'. find_common_slots order selected_data 30 = Inr common
            \<and> find_common_slots order' selected_data' 30 = Inr common'
          \<longrightarrow> map fst common' = map fst common
            \<and> (\<forall>t. mset (common_get common' t) = mset (common_get common t)))
     \<and> ((\<forall>p\<in>set (map fst selected_data). \<forall>t\<in>set TAGE.
            starts_unique (slots_of selected_data p t))
          \<longrightarrow> (\<forall>meeting_length. find_common_slots order' selected_data' meeting_length =
                find_common_slots order selected_data meeting_length))"
proof -
  from assms(4) have len: "length selected_data' = length selected_data"
    by (rule mset_eq_length)
  from assms(4) have m: "mset (map fst selected_data') = mset (map fst selected_data)"
    by (metis mset_map)
  with assms(3) have d': "distinct (map fst selected_data')"
    by (metis mset_eq_imp_distinct_iff)
  from assms(4) have "set selected_data' = set selected_data" by (rule mset_eq_setD)
  with assms(3) d' have mo: "map_of selected_data' = map_of selected_data"
    by (simp add: map_of_inject_set)
  from m have ps: "set (map fst selected_data') = set (map fst selected_data)"
    by (rule mset_eq_setD)
  have lk: "\<forall>p\<in>set (map fst selected_data).
            day_lookup selected_data' p t = day_lookup selected_data p t" for t
    by (simp add: mo day_lookup_def)
  have rel: "rel_sum (=) (list_all2 (rel_prod (=) (\<lambda>v v'. mset v = mset v')))
      (find_common_slots order' selected_data' 30) (find_common_slots order selected_data 30)"
  proof (cases "length selected_data < 2")
    case True
    with len show ?thesis by (simp add: find_common_slots_def)
  next
    case False
    with len have ne: "map fst selected_data \<noteq> []" "map fst selected_data' \<noteq> []" by auto
    have "rel_sum (=) (list_all2 (rel_prod (=) (\<lambda>v v'. mset v = mset v')))
      (tage_loop order' selected_data' 30 (map fst selected_data') TAGE [])
      (tage_loop order selected_data 30 (map fst selected_data) TAGE [])"
      by (intro tage_loop_related ballI day_common_30_related [OF assms(1) assms(2) ne ps lk]) simp
    with False len show ?thesis by (simp add: find_common_slots_def)
  qed
  have a: "find_common_slots order' selected_data' 30 = Inl e
            \<longleftrightarrow> find_common_slots order selected_data 30 = Inl e" for e
    using rel by (auto simp: rel_sum.simps)
  have b: "map fst common' = map fst common
            \<and> (\<forall>t. mset (common_get common' t) = mset (common_get common t))"
    if "find_common_slots order selected_data 30 = Inr common"
      "find_common_slots order' selected_data' 30 = Inr common'" for common common'
  proof -
    from rel that have "list_all2 (rel_prod (=) (\<lambda>v v'. mset v = mset v')) common' common"
      by simp
    then show ?thesis by (simp add: common_get_related)
  qed
  have c: "find_common_slots order' selected_data' meeting_length =
         find_common_slots order selected_data meeting_length"
    if u: "\<forall>p\<in>set (map fst selected_data). \<forall>t\<in>set TAGE.
            starts_unique (slots_of selected_data p t)" for meeting_length
  proof (cases "length selected_data < 2")
    case True
    with len show ?thesis by (simp add: find_common_slots_def)
  next
    case False
    with len have ne: "map fst selected_data \<noteq> []" "map fst selected_data' \<noteq> []" by auto
    have "day_common order' selected_data' meeting_length (map fst selected_data') t =
          day_common order selected_data meeting_length (map fst selected_data) t"
      if "t \<in> set TAGE" for t
    proof (rule day_common_same_set [OF assms(1) assms(2) ne ps lk])
      from ne(1) obtain p where "p \<in> set (map fst selected_data)" by (cases selected_data) auto
      with u that
      show "\<exists>p\<in>set (map fst selected_data). starts_unique (slots_of selected_data p t)"
        by blast
    qed
    then have "tage_loop order' selected_data' meeting_length (map fst selected_data') TAGE [] =
               tage_loop order selected_data meeting_length (map fst selected_data) TAGE []"
      by (intro tage_loop_cong) simp
    with False len show ?thesis by (simp add: find_common_slots_def)
  qed
  from a b c show ?thesis by blast
qed

theorem find_common_slots_order_of_persons_witness:
  "set_order_ok id \<and> set_order_ok rev
   \<and> find_common_slots rev
       [(''Juri'', week [''12:30-13:00'', ''13:00-13:30'', ''12:00-12:30''] []),
        (''Dodi'', week [''13:00-13:30'', ''12:00-12:30'', ''12:30-13:00''] []),
        (''Noah'', week [''12:30-13:00'', ''13:00-13:30''] [])] 30 =
     find_common_slots id
       [(''Dodi'', week [''13:00-13:30'', ''12:00-12:30'', ''12:30-13:00''] []),
        (''Noah'', week [''12:30-13:00'', ''13:00-13:30''] []),
        (''Juri'', week [''12:30-13:00'', ''13:00-13:30'', ''12:00-12:30''] [])] 30
   \<and> find_common_slots id
       [(''Dodi'', week [''13:00-13:30'', ''12:00-12:30'', ''12:30-13:00''] []),
        (''Noah'', week [''12:30-13:00'', ''13:00-13:30''] []),
        (''Juri'', week [''12:30-13:00'', ''13:00-13:30'', ''12:00-12:30''] [])] 30 =
     Inr [(''Montag'', [''12:30-13:00'', ''13:00-13:30'']), (''Dienstag'', []), (''Mittwoch'', []),
          (''Donnerstag'', []), (''Freitag'', [])]
   \<and> mset (common_get (projr (find_common_slots id
          [(''Noah'', week [''12:00-13:00'', ''12:00-12:30''] []),
           (''Dodi'', week [''12:00-12:30'', ''12:00-13:00''] [])] 30)) ''Montag'') =
     mset (common_get (projr (find_common_slots id
          [(''Dodi'', week [''12:00-12:30'', ''12:00-13:00''] []),
           (''Noah'', week [''12:00-13:00'', ''12:00-12:30''] [])] 30)) ''Montag'')"
proof -
  let ?sd = "[(''Dodi'', week [''13:00-13:30'', ''12:00-12:30'', ''12:30-13:00''] []),
        (''Noah'', week [''12:30-13:00'', ''13:00-13:30''] []),
        (''Juri'', week [''12:30-13:00'', ''13:00-13:30'', ''12:00-12:30''] [])]"
  let ?sd' = "[(''Juri'', week [''12:30-13:00'', ''13:00-13:30'', ''12:00-12:30''] []),
        (''Dodi'', week [''13:00-13:30'', ''12:00-12:30'', ''12:30-13:00''] []),
        (''Noah'', week [''12:30-13:00'', ''13:00-13:30''] [])]"
  let ?td = "[(''Dodi'', week [''12:00-12:30'', ''12:00-13:00''] []),
           (''Noah'', week [''12:00-13:00'', ''12:00-12:30''] [])]"
  let ?td' = "[(''Noah'', week [''12:00-13:00'', ''12:00-12:30''] []),
           (''Dodi'', week [''12:00-12:30'', ''12:00-13:00''] [])]"
  have o: "set_order_ok id" "set_order_ok rev" by (simp_all add: set_order_ok_def)
  have d: "distinct (map fst ?sd)" by simp
  have m: "mset ?sd' = mset ?sd" by (simp add: add.commute add.left_commute)
  have u: "\<forall>p\<in>set (map fst ?sd). \<forall>t\<in>set TAGE. starts_unique (slots_of ?sd p t)"
    by (simp add: TAGE_def slots_of_def day_lookup_def starts_unique_def start_minutes_def label_eval)
  have e: "find_common_slots id ?sd 30 =
     Inr [(''Montag'', [''12:30-13:00'', ''13:00-13:30'']), (''Dienstag'', []), (''Mittwoch'', []),
          (''Donnerstag'', []), (''Freitag'', [])]"
    by (simp add: common_eval)
  from find_common_slots_order_of_persons [OF o(1) o(2) d m] u
  have 1: "find_common_slots rev ?sd' 30 = find_common_slots id ?sd 30" by blast
  have d2: "distinct (map fst ?td)" by simp
  have m2: "mset ?td' = mset ?td" by (simp add: add.commute)
  have r: "find_common_slots id ?td 30 = Inr (projr (find_common_slots id ?td 30))"
    "find_common_slots id ?td' 30 = Inr (projr (find_common_slots id ?td' 30))"
    by (simp_all add: common_eval)
  from find_common_slots_order_of_persons [OF o(1) o(1) d2 m2] r
  have 2: "mset (common_get (projr (find_common_slots id ?td' 30)) ''Montag'') =
     mset (common_get (projr (find_common_slots id ?td 30)) ''Montag'')" by blast
  from o 1 e 2 show ?thesis by blast
qed

text \<open>
  The sequences can differ. The labels 12:00-12:30 and 12:00-13:00 start at the same minute;
  when a set is enumerated in the order of insertion, the list of Monday has them in the
  order of the list of the person supplied last.
\<close>

theorem find_common_slots_order_of_persons_counterexample:
  "set_order_ok id
   \<and> find_common_slots id
       [(''Dodi'', week [''12:00-12:30'', ''12:00-13:00''] []),
        (''Noah'', week [''12:00-13:00'', ''12:00-12:30''] [])] 30 =
     Inr [(''Montag'', [''12:00-13:00'', ''12:00-12:30'']), (''Dienstag'', []), (''Mittwoch'', []),
          (''Donnerstag'', []), (''Freitag'', [])]
   \<and> find_common_slots id
       [(''Noah'', week [''12:00-13:00'', ''12:00-12:30''] []),
        (''Dodi'', week [''12:00-12:30'', ''12:00-13:00''] [])] 30 =
     Inr [(''Montag'', [''12:00-12:30'', ''12:00-13:00'']), (''Dienstag'', []), (''Mittwoch'', []),
          (''Donnerstag'', []), (''Freitag'', [])]
   \<and> find_common_slots id
       [(''Noah'', week [''12:00-13:00'', ''12:00-12:30''] []),
        (''Dodi'', week [''12:00-12:30'', ''12:00-13:00''] [])] 30
     \<noteq> find_common_slots id
       [(''Dodi'', week [''12:00-12:30'', ''12:00-13:00''] []),
        (''Noah'', week [''12:00-13:00'', ''12:00-12:30''] [])] 30"
  by (simp add: common_eval set_order_ok_def)

text \<open>
  C8 (as amended). Let a selection be part of a larger one and have at least two persons.
  When the function returns for both in 30-minute mode, each label in the list of a weekday
  for the larger selection is in the list of that weekday for the smaller one.
\<close>

theorem find_common_slots_superset:
  assumes "set_order_ok order" and "set_order_ok order'"
    and "distinct (map fst super)" and "distinct (map fst sub)"
    and "set sub \<subseteq> set super" and "2 \<le> length sub"
    and "find_common_slots order super 30 = Inr common_super"
    and "find_common_slots order' sub 30 = Inr common_sub"
    and "t \<in> set TAGE"
  shows "set (common_get common_super t) \<subseteq> set (common_get common_sub t)"
proof -
  from assms(4) have "length sub = card (set sub)"
    by (metis distinct_card distinct_map)
  also from assms(5) have "\<dots> \<le> card (set super)" by (simp add: card_mono)
  also have "\<dots> \<le> length super" by (rule card_length)
  finally have l: "2 \<le> length super" using assms(6) by simp
  from find_common_slots_day_set [OF assms(1) l assms(7) assms(9)]
  have sup: "set (common_get common_super t) = (\<Inter>p\<in>set (map fst super). set (slots_of super p t))"
    by simp
  from find_common_slots_day_set [OF assms(2) assms(6) assms(8) assms(9)]
  have sb: "set (common_get common_sub t) = (\<Inter>p\<in>set (map fst sub). set (slots_of sub p t))"
    by simp
  have "slots_of sub p t = slots_of super p t \<and> p \<in> set (map fst super)"
    if "p \<in> set (map fst sub)" for p
  proof -
    from map_of_subset [OF assms(3) assms(5) that]
    have "day_lookup sub p t = day_lookup super p t" by (simp add: day_lookup_def)
    moreover from that assms(5) have "p \<in> set (map fst super)" by auto
    ultimately show ?thesis by (simp add: slots_of_def)
  qed
  then show ?thesis unfolding sup sb by blast
qed

theorem find_common_slots_superset_witness:
  "set_order_ok id
   \<and> find_common_slots id
       [(''Dodi'', week [''12:00-12:30'', ''12:30-13:00'', ''13:00-13:30''] []),
        (''Noah'', week [''12:30-13:00'', ''13:00-13:30''] []),
        (''Juri'', week [''13:00-13:30''] [])] 30 =
     Inr [(''Montag'', [''13:00-13:30'']), (''Dienstag'', []), (''Mittwoch'', []),
          (''Donnerstag'', []), (''Freitag'', [])]
   \<and> find_common_slots id
       [(''Noah'', week [''12:30-13:00'', ''13:00-13:30''] []),
        (''Dodi'', week [''12:00-12:30'', ''12:30-13:00'', ''13:00-13:30''] [])] 30 =
     Inr [(''Montag'', [''12:30-13:00'', ''13:00-13:30'']), (''Dienstag'', []), (''Mittwoch'', []),
          (''Donnerstag'', []), (''Freitag'', [])]
   \<and> set (common_get [(''Montag'', [''13:00-13:30'']), (''Dienstag'', []), (''Mittwoch'', []),
          (''Donnerstag'', []), (''Freitag'', [])] ''Montag'')
       \<subseteq> set (common_get [(''Montag'', [''12:30-13:00'', ''13:00-13:30'']), (''Dienstag'', []),
          (''Mittwoch'', []), (''Donnerstag'', []), (''Freitag'', [])] ''Montag'')"
proof -
  let ?super = "[(''Dodi'', week [''12:00-12:30'', ''12:30-13:00'', ''13:00-13:30''] []),
        (''Noah'', week [''12:30-13:00'', ''13:00-13:30''] []),
        (''Juri'', week [''13:00-13:30''] [])]"
  let ?sub = "[(''Noah'', week [''12:30-13:00'', ''13:00-13:30''] []),
        (''Dodi'', week [''12:00-12:30'', ''12:30-13:00'', ''13:00-13:30''] [])]"
  have o: "set_order_ok id" by (simp add: set_order_ok_def)
  have d: "distinct (map fst ?super)" "distinct (map fst ?sub)" by simp_all
  have s: "set ?sub \<subseteq> set ?super" by simp
  have l: "2 \<le> length ?sub" by simp
  have e: "find_common_slots id ?super 30 =
     Inr [(''Montag'', [''13:00-13:30'']), (''Dienstag'', []), (''Mittwoch'', []),
          (''Donnerstag'', []), (''Freitag'', [])]"
    by (simp add: common_eval)
  have e': "find_common_slots id ?sub 30 =
     Inr [(''Montag'', [''12:30-13:00'', ''13:00-13:30'']), (''Dienstag'', []), (''Mittwoch'', []),
          (''Donnerstag'', []), (''Freitag'', [])]"
    by (simp add: common_eval)
  have t: "''Montag'' \<in> set TAGE" by (simp add: TAGE_def)
  from find_common_slots_superset [OF o o d s l e e' t] o e e' show ?thesis by blast
qed

theorem find_common_slots_superset_counterexample:
  "find_common_slots id
       [(''Dodi'', week [''12:00-12:30''] []), (''Noah'', week [''12:00-12:30''] [])] 30 =
     Inr [(''Montag'', [''12:00-12:30'']), (''Dienstag'', []), (''Mittwoch'', []),
          (''Donnerstag'', []), (''Freitag'', [])]
   \<and> find_common_slots id [(''Dodi'', week [''12:00-12:30''] [])] 30 = Inr []
   \<and> \<not> set (common_get (projr (find_common_slots id
              [(''Dodi'', week [''12:00-12:30''] []), (''Noah'', week [''12:00-12:30''] [])] 30))
            ''Montag'')
        \<subseteq> set (common_get (projr (find_common_slots id
              [(''Dodi'', week [''12:00-12:30''] [])] 30)) ''Montag'')"
  by (simp add: common_eval common_get_def)

end
